theory Spec2Isabelle
  imports Main "HOL-Library.Char_ord" "HOL-Library.List_Lexorder"
begin

section \<open>Python string primitives used by GetTotal.py\<close>

text \<open>
  A Python \<open>str\<close> is modelled as a \<open>string\<close>, one \<open>char\<close> per code point; the
  model covers the code points below 256. Python integers are \<open>int\<close>.
\<close>

text \<open>The characters \<open>str.strip()\<close> removes: the code points below 256 for which
  \<open>str.isspace()\<close> holds.\<close>

definition is_space :: "char \<Rightarrow> bool" where
  "is_space c = (c \<in> set [CHR 0x09, CHR 0x0A, CHR 0x0B, CHR 0x0C, CHR 0x0D,
                           CHR 0x1C, CHR 0x1D, CHR 0x1E, CHR 0x1F, CHR 0x20,
                           CHR 0x85, CHR 0xA0])"

text \<open>\<open>s.strip()\<close>\<close>

definition strip :: "string \<Rightarrow> string" where
  "strip s = rev (dropWhile is_space (rev (dropWhile is_space s)))"

text \<open>\<open>s.startswith(m)\<close>\<close>

definition startswith :: "string \<Rightarrow> string \<Rightarrow> bool" where
  "startswith s m = (take (length m) s = m)"

text \<open>The index of the first occurrence of \<open>sub\<close> in \<open>s\<close>, if there is one.\<close>

fun find_first :: "string \<Rightarrow> string \<Rightarrow> nat option" where
  "find_first sub [] = (if sub = [] then Some 0 else None)"
| "find_first sub (c # cs) =
     (if startswith (c # cs) sub then Some 0 else map_option Suc (find_first sub cs))"

text \<open>\<open>sub in s\<close> for two strings\<close>

definition py_in :: "string \<Rightarrow> string \<Rightarrow> bool" where
  "py_in sub s = (find_first sub s \<noteq> None)"

text \<open>\<open>s.find(sub, start)\<close>: the lowest index at or after \<open>start\<close> where \<open>sub\<close>
  occurs, or \<open>-1\<close>. A negative \<open>start\<close> counts from the end of \<open>s\<close>.\<close>

definition py_find :: "string \<Rightarrow> string \<Rightarrow> int \<Rightarrow> int" where
  "py_find s sub start =
     (let n = int (length s);
          b = (if start < 0 then max 0 (start + n) else start)
      in if b > n then - 1
         else (case find_first sub (drop (nat b) s) of
                 None \<Rightarrow> - 1
               | Some i \<Rightarrow> b + int i))"

text \<open>\<open>s[k:]\<close>\<close>

definition slice_from :: "string \<Rightarrow> int \<Rightarrow> string" where
  "slice_from s k =
     (if k < 0 then drop (nat (max 0 (int (length s) + k))) s else drop (nat k) s)"


section \<open>Language rules\<close>

text \<open>The value under \<open>"single_line_comment"\<close> is a string or a list of strings.\<close>

datatype marker_spec = OneMarker string | Markers "string list"

text \<open>A language configuration is a dictionary; each key may be absent.\<close>

record language_config =
  extensions :: "string list option"
  single_line_comment :: "marker_spec option"
  multi_line_comment :: "(string \<times> string) list option"
  string_delimiters :: "string list option"

text \<open>\<open>language_config.get("multi_line_comment", [])\<close>\<close>

definition multi_line_comments :: "language_config \<Rightarrow> (string \<times> string) list" where
  "multi_line_comments cfg = (case multi_line_comment cfg of None \<Rightarrow> [] | Some ps \<Rightarrow> ps)"

text \<open>\<open>language_config.get("single_line_comment", [])\<close>, wrapped in a list when it is
  not one.\<close>

definition single_line_comments :: "language_config \<Rightarrow> string list" where
  "single_line_comments cfg =
     (case single_line_comment cfg of
        None \<Rightarrow> []
      | Some (Markers ms) \<Rightarrow> ms
      | Some (OneMarker m) \<Rightarrow> [m])"


section \<open>The line scanner: \<open>CodeAnalyzer.analyze_file\<close>\<close>

text \<open>
  The local variables of the loop. \<open>in_block_comment\<close>, \<open>block_comment_start\<close> and
  \<open>block_comment_end\<close> are always assigned together (lines 152-154 and 163-165), so they
  are one field: \<open>None\<close> is \<open>(False, None, None)\<close>, and \<open>Some (s, e)\<close> is \<open>(True, s, e)\<close>.
\<close>

record scan_state =
  empty_lines :: int
  comment_lines :: int
  code_lines :: int
  block_comment :: "(string \<times> string) option"

definition in_block_comment :: "scan_state \<Rightarrow> bool" where
  "in_block_comment st = (block_comment st \<noteq> None)"

definition block_comment_end :: "scan_state \<Rightarrow> string option" where
  "block_comment_end st = map_option snd (block_comment st)"

definition initial_state :: scan_state where
  "initial_state = \<lparr>empty_lines = 0, comment_lines = 0, code_lines = 0, block_comment = None\<rparr>"

text \<open>
  The loop over the block-comment pairs (lines 132-167). It returns the state and the
  value of \<open>line_comment_check\<close> after the loop: the empty string when a branch that
  ends in \<open>break\<close> was taken, the stripped line when the loop ran to its end.
\<close>

fun pair_loop :: "string \<Rightarrow> (string \<times> string) list \<Rightarrow> scan_state \<Rightarrow> scan_state \<times> string" where
  "pair_loop lcc [] st = (st, lcc)"
| "pair_loop lcc ((start_marker, end_marker) # rest) st =
     (case block_comment st of
        None \<Rightarrow>
          if py_in start_marker lcc then
            (if py_in end_marker lcc then
               (let start_idx = py_find lcc start_marker 0;
                    end_idx = py_find lcc end_marker (start_idx + int (length start_marker))
                in if end_idx \<noteq> - 1 then
                     (let after_comment = strip (slice_from lcc (end_idx + int (length end_marker)));
                          st1 = st\<lparr>comment_lines := comment_lines st + 1\<rparr>;
                          st2 = (if after_comment \<noteq> [] then st1\<lparr>code_lines := code_lines st1 + 1\<rparr>
                                 else st1)
                      in (st2, []))
                   else pair_loop lcc rest st)
             else
               (st\<lparr>block_comment := Some (start_marker, end_marker),
                   comment_lines := comment_lines st + 1\<rparr>, []))
          else pair_loop lcc rest st
      | Some (bs, be) \<Rightarrow>
          (let st1 = st\<lparr>comment_lines := comment_lines st + 1\<rparr>;
               st2 = (if py_in be lcc then st1\<lparr>block_comment := None\<rparr> else st1)
           in (st2, [])))"

text \<open>The loop over the single-line markers (lines 179-183): the value of
  \<open>is_comment\<close> after it.\<close>

fun marker_loop :: "string \<Rightarrow> string list \<Rightarrow> bool" where
  "marker_loop lcc [] = False"
| "marker_loop lcc (comment_marker # rest) =
     (if comment_marker \<noteq> [] \<and> startswith lcc comment_marker then True
      else marker_loop lcc rest)"

text \<open>One iteration of \<open>for line in lines\<close> (lines 119-186).\<close>

definition process_line :: "language_config \<Rightarrow> scan_state \<Rightarrow> string \<Rightarrow> scan_state" where
  "process_line cfg st line =
     (let stripped_line = strip line
      in if stripped_line = [] then st\<lparr>empty_lines := empty_lines st + 1\<rparr>
         else
           (let (st1, line_comment_check) =
                  (if multi_line_comments cfg \<noteq> []
                   then pair_loop stripped_line (multi_line_comments cfg) st
                   else (st, stripped_line))
            in if line_comment_check = [] then st1
               else if marker_loop line_comment_check (single_line_comments cfg)
                    then st1\<lparr>comment_lines := comment_lines st1 + 1\<rparr>
                    else st1\<lparr>code_lines := code_lines st1 + 1\<rparr>))"

text \<open>The whole loop, from a given state.\<close>

definition scan_lines :: "language_config \<Rightarrow> scan_state \<Rightarrow> string list \<Rightarrow> scan_state" where
  "scan_lines cfg st lines = foldl (process_line cfg) st lines"

text \<open>\<open>os.path.basename\<close> (POSIX): what follows the last \<open>/\<close>.\<close>

definition basename :: "string \<Rightarrow> string" where
  "basename p = rev (takeWhile (\<lambda>c. c \<noteq> CHR ''/'') (rev p))"

text \<open>The dictionary \<open>analyze_file\<close> returns.\<close>

record file_metrics =
  f_total_lines :: int
  f_empty_lines :: int
  f_comment_lines :: int
  f_code_lines :: int
  f_file_path :: string
  f_file_name :: string

text \<open>
  \<open>analyze_file\<close>. Reading the file is the argument \<open>contents\<close>: \<open>None\<close> when
  \<open>open\<close> or \<open>readlines\<close> raises, otherwise the lines read. The result is \<open>None\<close>
  where the source returns \<open>None\<close>.
\<close>

definition analyze_file :: "string \<Rightarrow> string list option \<Rightarrow> language_config \<Rightarrow> file_metrics option" where
  "analyze_file file_path contents cfg =
     (case contents of
        None \<Rightarrow> None
      | Some lines \<Rightarrow>
          (let st = scan_lines cfg initial_state lines
           in Some \<lparr>f_total_lines = int (length lines),
                    f_empty_lines = empty_lines st,
                    f_comment_lines = comment_lines st,
                    f_code_lines = code_lines st,
                    f_file_path = file_path,
                    f_file_name = basename file_path\<rparr>))"


section \<open>The default rule table: \<open>CodeAnalyzer.DEFAULT_LANGUAGES\<close>\<close>

text \<open>A dictionary whose iteration order matters is an association list in insertion
  order; its keys are distinct.\<close>

definition lang_rule :: "string list \<Rightarrow> marker_spec \<Rightarrow> (string \<times> string) list \<Rightarrow> string list \<Rightarrow> language_config" where
  "lang_rule exts single multi delims =
     \<lparr>extensions = Some exts, single_line_comment = Some single,
      multi_line_comment = Some multi, string_delimiters = Some delims\<rparr>"

definition double_quote :: string where
  "double_quote = [CHR 0x22]"

definition single_quote :: string where
  "single_quote = [CHR 0x27]"

definition quotes :: "string list" where
  "quotes = [double_quote, single_quote]"

definition DEFAULT_LANGUAGES :: "(string \<times> language_config) list" where
  "DEFAULT_LANGUAGES =
     [(''C/C++'', lang_rule [''.c'', ''.cpp'', ''.cxx'', ''.cc'', ''.h'', ''.hpp'', ''.hxx'']
                   (OneMarker ''//'') [(''/*'', ''*/'')] quotes),
      (''C#'', lang_rule [''.cs''] (OneMarker ''//'') [(''/*'', ''*/'')] quotes),
      (''Python'', lang_rule [''.py'', ''.pyw''] (OneMarker ''#'')
                   [(double_quote @ double_quote @ double_quote,
                     double_quote @ double_quote @ double_quote),
                    (single_quote @ single_quote @ single_quote,
                     single_quote @ single_quote @ single_quote)] quotes),
      (''Java'', lang_rule [''.java''] (OneMarker ''//'') [(''/*'', ''*/'')] quotes),
      (''Kotlin'', lang_rule [''.kt'', ''.kts''] (OneMarker ''//'') [(''/*'', ''*/'')] quotes),
      (''JavaScript/TypeScript'', lang_rule [''.js'', ''.jsx'', ''.ts'', ''.tsx'']
                   (OneMarker ''//'') [(''/*'', ''*/'')] (quotes @ [''`''])),
      (''HTML/CSS'', lang_rule [''.html'', ''.htm'', ''.css'', ''.scss'', ''.sass'', ''.less'']
                   (OneMarker ''//'') [(''<!--'', ''-->''), (''/*'', ''*/'')] quotes),
      (''PHP'', lang_rule [''.php'', ''.php3'', ''.php4'', ''.php5'', ''.phtml'']
                   (Markers [''//'', ''#'']) [(''/*'', ''*/'')] quotes),
      (''Ruby'', lang_rule [''.rb'', ''.rbw'', ''.rake''] (OneMarker ''#'')
                   [(''=begin'', ''=end'')] quotes),
      (''Rust'', lang_rule [''.rs''] (OneMarker ''//'') [(''/*'', ''*/'')] quotes),
      (''Go'', lang_rule [''.go''] (OneMarker ''//'') [(''/*'', ''*/'')] quotes),
      (''Shell'', lang_rule [''.sh'', ''.bash'', ''.zsh'', ''.fish''] (OneMarker ''#'') [] quotes),
      (''Assembly'', lang_rule [''.asm'', ''.s'', ''.S''] (Markers ['';'', ''#'']) [] quotes)]"

text \<open>\<open>language_configs.get(language, {})\<close>\<close>

definition empty_config :: language_config where
  "empty_config = \<lparr>extensions = None, single_line_comment = None,
                    multi_line_comment = None, string_delimiters = None\<rparr>"

definition config_of :: "(string \<times> language_config) list \<Rightarrow> string \<Rightarrow> language_config" where
  "config_of language_configs language =
     (case map_of language_configs language of None \<Rightarrow> empty_config | Some cfg \<Rightarrow> cfg)"


section \<open>The file classifier: \<open>CodeAnalyzer.get_language_from_extension\<close>\<close>

text \<open>\<open>str.lower()\<close> on the code points below 256: the letters A-Z and the
  capital letters of Latin-1 (192-214 and 216-222) move up by 32.\<close>

definition lower_char :: "char \<Rightarrow> char" where
  "lower_char c =
     (let n = (of_char c :: nat)
      in if (65 \<le> n \<and> n \<le> 90) \<or> (192 \<le> n \<and> n \<le> 214) \<or> (216 \<le> n \<and> n \<le> 222)
         then char_of (n + 32) else c)"

definition lower :: "string \<Rightarrow> string" where
  "lower s = map lower_char s"

text \<open>\<open>s.split(sep)\<close> for a separator of one character.\<close>

fun split_sep :: "char \<Rightarrow> string \<Rightarrow> string list" where
  "split_sep sep [] = [[]]"
| "split_sep sep (c # cs) =
     (if c = sep then [] # split_sep sep cs
      else (case split_sep sep cs of
              [] \<Rightarrow> [[c]]
            | p # ps \<Rightarrow> (c # p) # ps))"

text \<open>\<open>Path(p).name\<close> for a POSIX path: the last component, where empty components
  and \<open>.\<close> are dropped; the empty string when no component is left.\<close>

definition path_name :: "string \<Rightarrow> string" where
  "path_name p =
     (case filter (\<lambda>x. x \<noteq> [] \<and> x \<noteq> ''.'') (split_sep (CHR ''/'') p) of
        [] \<Rightarrow> []
      | part # parts \<Rightarrow> last (part # parts))"

text \<open>\<open>name.rfind('.')\<close>\<close>

definition rfind_dot :: "string \<Rightarrow> int" where
  "rfind_dot name =
     (case find_first ''.'' (rev name) of
        None \<Rightarrow> - 1
      | Some j \<Rightarrow> int (length name) - 1 - int j)"

text \<open>\<open>Path(p).suffix\<close>: the name from its last dot on, when that dot is neither the
  first nor the last character of the name.\<close>

definition suffix :: "string \<Rightarrow> string" where
  "suffix p =
     (let name = path_name p; i = rfind_dot name
      in if 0 < i \<and> i < int (length name) - 1 then slice_from name i else [])"

text \<open>\<open>"extensions" in config and ext in config["extensions"]\<close>\<close>

definition has_extension :: "string \<Rightarrow> language_config \<Rightarrow> bool" where
  "has_extension ext config =
     (case extensions config of None \<Rightarrow> False | Some es \<Rightarrow> ext \<in> set es)"

text \<open>The loop over \<open>language_configs.items()\<close> (lines 201-204).\<close>

fun language_loop :: "string \<Rightarrow> (string \<times> language_config) list \<Rightarrow> string" where
  "language_loop ext [] = ''Unknown''"
| "language_loop ext ((lang, config) # rest) =
     (if has_extension ext config then lang else language_loop ext rest)"

definition get_language_from_extension :: "string \<Rightarrow> (string \<times> language_config) list \<Rightarrow> string" where
  "get_language_from_extension file_path language_configs =
     language_loop (lower (suffix file_path)) language_configs"


section \<open>The tree walker: \<open>ModernCodeCounterApp.collect_files\<close>\<close>

text \<open>A directory: the names of its files, and its subdirectories by name.\<close>

datatype fs_dir = Dir "string list" "(string \<times> fs_dir) list"

text \<open>\<open>os.path.join(a, b)\<close> (POSIX)\<close>

definition path_join :: "string \<Rightarrow> string \<Rightarrow> string" where
  "path_join a b =
     (if startswith b ''/'' then b
      else if a = [] \<or> last a = CHR ''/'' then a @ b
      else a @ ''/'' @ b)"

text \<open>\<open>os.walk\<close>, top down, with the hidden directories removed from \<open>dirs\<close> before the
  walk descends (line 814): the pairs of \<open>root_dir\<close> and \<open>filenames\<close> it yields.\<close>

fun walk :: "string \<Rightarrow> fs_dir \<Rightarrow> (string \<times> string list) list"
and walk_dirs :: "string \<Rightarrow> (string \<times> fs_dir) list \<Rightarrow> (string \<times> string list) list" where
  "walk root_dir (Dir filenames dirs) = (root_dir, filenames) # walk_dirs root_dir dirs"
| "walk_dirs root_dir [] = []"
| "walk_dirs root_dir ((d, sub) # rest) =
     (if startswith d ''.'' then [] else walk (path_join root_dir d) sub) @ walk_dirs root_dir rest"

text \<open>The loop over the exclude patterns (lines 821-824): the value of \<open>skip\<close>.\<close>

fun exclude_loop :: "string \<Rightarrow> string list \<Rightarrow> bool" where
  "exclude_loop file_path [] = False"
| "exclude_loop file_path (pattern # rest) =
     (if pattern \<noteq> [] \<and> pattern \<noteq> ''*'' \<and> py_in pattern file_path then True
      else exclude_loop file_path rest)"

text \<open>The loop over the include patterns (lines 834-837): the value of \<open>include\<close>.\<close>

fun include_loop :: "string \<Rightarrow> string list \<Rightarrow> bool" where
  "include_loop file_path [] = False"
| "include_loop file_path (pattern # rest) =
     (if pattern \<noteq> [] \<and> py_in pattern file_path then True
      else include_loop file_path rest)"

text \<open>The body of \<open>for filename in filenames\<close>: whether \<open>file_path\<close> is appended.\<close>

definition file_kept :: "string list \<Rightarrow> string list \<Rightarrow> string \<Rightarrow> bool" where
  "file_kept include_patterns exclude_patterns file_path =
     (if exclude_loop file_path exclude_patterns then False
      else if ''*'' \<in> set include_patterns then True
      else include_loop file_path include_patterns)"

text \<open>The candidate paths: \<open>os.path.join(root_dir, filename)\<close> for every file the walk
  reaches.\<close>

definition candidate_paths :: "string \<Rightarrow> fs_dir \<Rightarrow> string list" where
  "candidate_paths current_directory tree =
     concat (map (\<lambda>(root_dir, filenames). map (path_join root_dir) filenames)
                 (walk current_directory tree))"

definition collect_files :: "string \<Rightarrow> fs_dir \<Rightarrow> string list \<Rightarrow> string list \<Rightarrow> string list" where
  "collect_files current_directory tree include_patterns exclude_patterns =
     filter (file_kept include_patterns exclude_patterns)
            (candidate_paths current_directory tree)"


section \<open>Results and snapshots\<close>

text \<open>The value of \<open>self.results[language]\<close>.\<close>

record lang_data =
  l_files :: "file_metrics list"
  l_total_lines :: int
  l_code_lines :: int
  l_comment_lines :: int
  l_empty_lines :: int

type_synonym results = "(string \<times> lang_data) list"

record export_config =
  x_include_patterns :: "string list"
  x_exclude_patterns :: "string list"
  x_selected_languages :: "string list"

text \<open>The document of a snapshot file as the comparison reads it; a document may lack
  any key.\<close>

record snapshot =
  snap_directory :: "string option"
  snap_timestamp :: "string option"
  snap_results :: "results option"
  snap_config :: "export_config option"

text \<open>The four counters of every file and of every language of a result.\<close>

definition file_counters :: "file_metrics \<Rightarrow> int \<times> int \<times> int \<times> int" where
  "file_counters f = (f_total_lines f, f_code_lines f, f_comment_lines f, f_empty_lines f)"

definition language_counters :: "results \<Rightarrow> (string \<times> int \<times> int \<times> int \<times> int) list" where
  "language_counters r =
     map (\<lambda>(language, data). (language, l_total_lines data, l_code_lines data,
                               l_comment_lines data, l_empty_lines data)) r"

definition per_file_counters :: "results \<Rightarrow> (string \<times> (int \<times> int \<times> int \<times> int) list) list" where
  "per_file_counters r = map (\<lambda>(language, data). (language, map file_counters (l_files data))) r"


section \<open>JSON text: \<open>json.dump\<close> and \<open>json.load\<close>\<close>

text \<open>A value that \<open>json.load\<close> returns and \<open>json.dump\<close> accepts: \<open>None\<close>, a truth value,
  an integer, a string, a list, or a dictionary with string keys in insertion order.
  Numbers with a fraction or an exponent are outside the model.\<close>

datatype json = JNull | JBool bool | JNum int | JStr string | JArr "json list" | JObj "(string \<times> json) list"

text \<open>\<open>str(i)\<close> for an integer: the decimal digits, after a minus sign when it is negative.\<close>

definition digit_char :: "nat \<Rightarrow> char" where
  "digit_char d = char_of (48 + d)"

function nat_digits :: "nat \<Rightarrow> string" where
  "nat_digits n = (if n < 10 then [digit_char n] else nat_digits (n div 10) @ [digit_char (n mod 10)])"
  by pat_completeness auto
termination
  by (relation "measure id") auto

declare nat_digits.simps [simp del]

definition encode_int :: "int \<Rightarrow> string" where
  "encode_int i = (if i < 0 then CHR ''-'' # nat_digits (nat (- i)) else nat_digits (nat i))"

text \<open>The escapes of \<open>json.dump\<close> with \<open>ensure_ascii=False\<close>: the quote, the backslash and
  the control characters; the control characters without a short escape are written as
  \<open>\u00XX\<close> in lower-case hexadecimal. Every other character is written as it is.\<close>

definition hex_char :: "nat \<Rightarrow> char" where
  "hex_char d = (if d < 10 then char_of (48 + d) else char_of (87 + d))"

definition escape_char :: "char \<Rightarrow> string" where
  "escape_char c =
     (if c = CHR 0x22 then [CHR 0x5C, CHR 0x22]
      else if c = CHR 0x5C then [CHR 0x5C, CHR 0x5C]
      else if c = CHR 0x08 then [CHR 0x5C, CHR ''b'']
      else if c = CHR 0x0C then [CHR 0x5C, CHR ''f'']
      else if c = CHR 0x0A then [CHR 0x5C, CHR ''n'']
      else if c = CHR 0x0D then [CHR 0x5C, CHR ''r'']
      else if c = CHR 0x09 then [CHR 0x5C, CHR ''t'']
      else if (of_char c :: nat) < 32
        then [CHR 0x5C, CHR ''u'', CHR ''0'', CHR ''0'',
              hex_char (of_char c div 16), hex_char (of_char c mod 16)]
      else [c])"

definition encode_str :: "string \<Rightarrow> string" where
  "encode_str s = CHR 0x22 # concat (map escape_char s) @ [CHR 0x22]"

text \<open>\<open>json.dump(..., indent=2)\<close>: an empty list is \<open>[]\<close> and an empty dictionary \<open>{}\<close>; the items
  of any other are written one to a line, indented by two spaces for each level, with
  \<open>,\<close> between items and \<open>: \<close> between a key and its value.\<close>

definition newline_indent :: "nat \<Rightarrow> string" where
  "newline_indent level = CHR 0x0A # replicate (2 * level) (CHR 0x20)"

fun encode :: "nat \<Rightarrow> json \<Rightarrow> string"
and encode_items :: "nat \<Rightarrow> json list \<Rightarrow> string"
and encode_members :: "nat \<Rightarrow> (string \<times> json) list \<Rightarrow> string" where
  "encode l JNull = ''null''"
| "encode l (JBool b) = (if b then ''true'' else ''false'')"
| "encode l (JNum i) = encode_int i"
| "encode l (JStr s) = encode_str s"
| "encode l (JArr []) = ''[]''"
| "encode l (JArr (x # xs)) =
     ''['' @ newline_indent (Suc l) @ encode (Suc l) x @ encode_items (Suc l) xs
         @ newline_indent l @ '']''"
| "encode l (JObj []) = ''{}''"
| "encode l (JObj ((k, v) # kvs)) =
     ''{'' @ newline_indent (Suc l) @ encode_str k @ '': '' @ encode (Suc l) v
         @ encode_members (Suc l) kvs @ newline_indent l @ ''}''"
| "encode_items l [] = []"
| "encode_items l (x # xs) = '','' @ newline_indent l @ encode l x @ encode_items l xs"
| "encode_members l [] = []"
| "encode_members l ((k, v) # kvs) =
     '','' @ newline_indent l @ encode_str k @ '': '' @ encode l v @ encode_members l kvs"

definition json_dumps :: "json \<Rightarrow> string" where
  "json_dumps v = encode 0 v"

text \<open>\<open>json.load\<close>. Whitespace is the space, the tab, the line feed and the carriage
  return.\<close>

definition is_ws :: "char \<Rightarrow> bool" where
  "is_ws c = (c = CHR 0x20 \<or> c = CHR 0x09 \<or> c = CHR 0x0A \<or> c = CHR 0x0D)"

definition skip_ws :: "string \<Rightarrow> string" where
  "skip_ws s = dropWhile is_ws s"

text \<open>A number: an optional minus sign, then \<open>0\<close> or a digit other than \<open>0\<close> followed by
  digits. When a \<open>.\<close>, an \<open>e\<close> or an \<open>E\<close> follows, the number is outside the model.\<close>

definition is_digit :: "char \<Rightarrow> bool" where
  "is_digit c = (48 \<le> (of_char c :: nat) \<and> (of_char c :: nat) \<le> 57)"

definition digit_val :: "char \<Rightarrow> nat" where
  "digit_val c = of_char c - 48"

definition nat_of_digits :: "string \<Rightarrow> nat" where
  "nat_of_digits ds = foldl (\<lambda>a c. 10 * a + digit_val c) 0 ds"

definition scan_nat :: "string \<Rightarrow> (nat \<times> string) option" where
  "scan_nat s =
     (case s of
        [] \<Rightarrow> None
      | c # cs \<Rightarrow>
          if c = CHR ''0'' then Some (0, cs)
          else if is_digit c then Some (nat_of_digits (takeWhile is_digit s), dropWhile is_digit s)
          else None)"

definition float_follows :: "string \<Rightarrow> bool" where
  "float_follows r = (case r of [] \<Rightarrow> False | c # cs \<Rightarrow> c = CHR ''.'' \<or> c = CHR ''e'' \<or> c = CHR ''E'')"

definition scan_number :: "string \<Rightarrow> (json \<times> string) option" where
  "scan_number s =
     (case s of
        [] \<Rightarrow> None
      | c # cs \<Rightarrow>
          (case scan_nat (if c = CHR ''-'' then cs else s) of
             None \<Rightarrow> None
           | Some (n, r) \<Rightarrow>
               if float_follows r then None
               else Some (JNum (if c = CHR ''-'' then - int n else int n), r)))"

text \<open>A string, after its opening quote, up to the closing quote (\<open>scanstring\<close>, strict): a
  backslash starts an escape, a control character is refused. Of the \<open>\uXXXX\<close>
  escapes, those below 256 are in the model.\<close>

definition hex_val :: "char \<Rightarrow> nat option" where
  "hex_val c =
     (let n = (of_char c :: nat)
      in if 48 \<le> n \<and> n \<le> 57 then Some (n - 48)
         else if 97 \<le> n \<and> n \<le> 102 then Some (n - 87)
         else if 65 \<le> n \<and> n \<le> 70 then Some (n - 55)
         else None)"

definition hex4 :: "char \<Rightarrow> char \<Rightarrow> char \<Rightarrow> char \<Rightarrow> char option" where
  "hex4 h1 h2 h3 h4 =
     (case (hex_val h1, hex_val h2, hex_val h3, hex_val h4) of
        (Some a, Some b, Some c, Some d) \<Rightarrow>
          (let n = ((a * 16 + b) * 16 + c) * 16 + d
           in if n < 256 then Some (char_of n) else None)
      | _ \<Rightarrow> None)"

definition unescape :: "char \<Rightarrow> char option" where
  "unescape e =
     (if e = CHR 0x22 then Some (CHR 0x22)
      else if e = CHR 0x5C then Some (CHR 0x5C)
      else if e = CHR ''/'' then Some (CHR ''/'')
      else if e = CHR ''b'' then Some (CHR 0x08)
      else if e = CHR ''f'' then Some (CHR 0x0C)
      else if e = CHR ''n'' then Some (CHR 0x0A)
      else if e = CHR ''r'' then Some (CHR 0x0D)
      else if e = CHR ''t'' then Some (CHR 0x09)
      else None)"

definition prepend :: "char \<Rightarrow> (string \<times> string) option \<Rightarrow> (string \<times> string) option" where
  "prepend c r = (case r of None \<Rightarrow> None | Some (s, rest) \<Rightarrow> Some (c # s, rest))"

fun scanstring :: "string \<Rightarrow> (string \<times> string) option" where
  "scanstring [] = None"
| "scanstring (c # cs) =
     (if c = CHR 0x22 then Some ([], cs)
      else if c = CHR 0x5C then
        (case cs of
           [] \<Rightarrow> None
         | e # es \<Rightarrow>
             if e = CHR ''u'' then
               (case es of
                  h1 # h2 # h3 # h4 # r \<Rightarrow>
                    (case hex4 h1 h2 h3 h4 of
                       None \<Rightarrow> None
                     | Some ch \<Rightarrow> prepend ch (scanstring r))
                | _ \<Rightarrow> None)
             else
               (case unescape e of
                  None \<Rightarrow> None
                | Some ch \<Rightarrow> prepend ch (scanstring es)))
      else if (of_char c :: nat) < 32 then None
      else prepend c (scanstring cs))"


text \<open>\<open>dict(pairs)\<close>: a key that occurs again keeps its place and takes the later value.\<close>

fun dict_set :: "string \<Rightarrow> json \<Rightarrow> (string \<times> json) list \<Rightarrow> (string \<times> json) list" where
  "dict_set k v [] = [(k, v)]"
| "dict_set k v ((k', v') # kvs) =
     (if k' = k then (k, v) # kvs else (k', v') # dict_set k v kvs)"

definition py_dict :: "(string \<times> json) list \<Rightarrow> (string \<times> json) list" where
  "py_dict pairs = foldl (\<lambda>d kv. dict_set (fst kv) (snd kv) d) [] pairs"

text \<open>The scanner: \<open>scan_once\<close> reads one value, \<open>scan_array_rest\<close> and
  \<open>scan_object_rest\<close> read what follows a value inside a list and inside a dictionary,
  up to the closing bracket. The first argument bounds the number of nested calls; the
  length of the text is enough for every text that \<open>json.dump\<close> writes.\<close>

fun scan_once :: "nat \<Rightarrow> string \<Rightarrow> (json \<times> string) option"
and scan_array_rest :: "nat \<Rightarrow> string \<Rightarrow> (json list \<times> string) option"
and scan_object_rest :: "nat \<Rightarrow> string \<Rightarrow> ((string \<times> json) list \<times> string) option" where
  "scan_once 0 s = None"
| "scan_once (Suc n) s =
     (case s of
        [] \<Rightarrow> None
      | c # cs \<Rightarrow>
          if c = CHR 0x22 then
            (case scanstring cs of None \<Rightarrow> None | Some (x, r) \<Rightarrow> Some (JStr x, r))
          else if c = CHR ''{'' then
            (case skip_ws cs of
               [] \<Rightarrow> None
             | d # ds \<Rightarrow>
                 if d = CHR ''}'' then Some (JObj [], ds)
                 else if d = CHR 0x22 then
                   (case scanstring ds of
                      None \<Rightarrow> None
                    | Some (key, r) \<Rightarrow>
                        (case skip_ws r of
                           [] \<Rightarrow> None
                         | e # es \<Rightarrow>
                             if e = CHR '':'' then
                               (case scan_once n (skip_ws es) of
                                  None \<Rightarrow> None
                                | Some (v, r2) \<Rightarrow>
                                    (case scan_object_rest n r2 of
                                       None \<Rightarrow> None
                                     | Some (kvs, r3) \<Rightarrow>
                                         Some (JObj (py_dict ((key, v) # kvs)), r3)))
                             else None))
                 else None)
          else if c = CHR ''['' then
            (case skip_ws cs of
               [] \<Rightarrow> None
             | d # ds \<Rightarrow>
                 if d = CHR '']'' then Some (JArr [], ds)
                 else
                   (case scan_once n (d # ds) of
                      None \<Rightarrow> None
                    | Some (v, r) \<Rightarrow>
                        (case scan_array_rest n r of
                           None \<Rightarrow> None
                         | Some (vs, r2) \<Rightarrow> Some (JArr (v # vs), r2))))
          else if startswith s ''null'' then Some (JNull, drop 4 s)
          else if startswith s ''true'' then Some (JBool True, drop 4 s)
          else if startswith s ''false'' then Some (JBool False, drop 5 s)
          else scan_number s)"
| "scan_array_rest 0 s = None"
| "scan_array_rest (Suc n) s =
     (case skip_ws s of
        [] \<Rightarrow> None
      | d # ds \<Rightarrow>
          if d = CHR '']'' then Some ([], ds)
          else if d = CHR '','' then
            (case scan_once n (skip_ws ds) of
               None \<Rightarrow> None
             | Some (v, r) \<Rightarrow>
                 (case scan_array_rest n r of
                    None \<Rightarrow> None
                  | Some (vs, r2) \<Rightarrow> Some (v # vs, r2)))
          else None)"
| "scan_object_rest 0 s = None"
| "scan_object_rest (Suc n) s =
     (case skip_ws s of
        [] \<Rightarrow> None
      | d # ds \<Rightarrow>
          if d = CHR ''}'' then Some ([], ds)
          else if d = CHR '','' then
            (case skip_ws ds of
               [] \<Rightarrow> None
             | q # qs \<Rightarrow>
                 if q = CHR 0x22 then
                   (case scanstring qs of
                      None \<Rightarrow> None
                    | Some (key, r) \<Rightarrow>
                        (case skip_ws r of
                           [] \<Rightarrow> None
                         | e # es \<Rightarrow>
                             if e = CHR '':'' then
                               (case scan_once n (skip_ws es) of
                                  None \<Rightarrow> None
                                | Some (v, r2) \<Rightarrow>
                                    (case scan_object_rest n r2 of
                                       None \<Rightarrow> None
                                     | Some (kvs, r3) \<Rightarrow> Some ((key, v) # kvs, r3)))
                             else None))
                 else None)
          else None)"

text \<open>\<open>json.loads\<close>: leading whitespace is skipped, one value is read, and only whitespace
  may follow it.\<close>

definition json_loads :: "string \<Rightarrow> json option" where
  "json_loads s =
     (case scan_once (length (skip_ws s)) (skip_ws s) of
        None \<Rightarrow> None
      | Some (v, r) \<Rightarrow> if skip_ws r = [] then Some v else None)"

text \<open>A Python dictionary has no key twice: the values that are representations of
  Python objects.\<close>

fun well_formed :: "json \<Rightarrow> bool"
and well_formed_items :: "json list \<Rightarrow> bool"
and well_formed_members :: "(string \<times> json) list \<Rightarrow> bool" where
  "well_formed JNull = True"
| "well_formed (JBool b) = True"
| "well_formed (JNum i) = True"
| "well_formed (JStr s) = True"
| "well_formed (JArr xs) = well_formed_items xs"
| "well_formed (JObj kvs) = (distinct (map fst kvs) \<and> well_formed_members kvs)"
| "well_formed_items [] = True"
| "well_formed_items (x # xs) = (well_formed x \<and> well_formed_items xs)"
| "well_formed_members [] = True"
| "well_formed_members ((k, v) # kvs) = (well_formed v \<and> well_formed_members kvs)"

text \<open>What may follow the digits of an integer.\<close>

definition num_ok :: "string \<Rightarrow> bool" where
  "num_ok rest = (case rest of [] \<Rightarrow> True
      | c # cs \<Rightarrow> \<not> is_digit c \<and> c \<noteq> CHR ''.'' \<and> c \<noteq> CHR ''e'' \<and> c \<noteq> CHR ''E'')"


section \<open>Export and import: \<open>export_results\<close> and \<open>import_results\<close>\<close>

text \<open>The Python values of a result: the dictionary that \<open>analyze_file\<close> returns (lines
  188-195), the dictionary of a language (lines 783-789), and \<open>self.results\<close>.\<close>

definition json_of_file :: "file_metrics \<Rightarrow> json" where
  "json_of_file f =
     JObj [(''total_lines'', JNum (f_total_lines f)),
           (''empty_lines'', JNum (f_empty_lines f)),
           (''comment_lines'', JNum (f_comment_lines f)),
           (''code_lines'', JNum (f_code_lines f)),
           (''file_path'', JStr (f_file_path f)),
           (''file_name'', JStr (f_file_name f))]"

definition json_of_lang :: "lang_data \<Rightarrow> json" where
  "json_of_lang d =
     JObj [(''files'', JArr (map json_of_file (l_files d))),
           (''total_lines'', JNum (l_total_lines d)),
           (''code_lines'', JNum (l_code_lines d)),
           (''comment_lines'', JNum (l_comment_lines d)),
           (''empty_lines'', JNum (l_empty_lines d))]"

definition json_of_results :: "results \<Rightarrow> json" where
  "json_of_results r = JObj (map (\<lambda>(language, data). (language, json_of_lang data)) r)"

text \<open>The fields of the application that export and import use. \<open>self.results\<close> is
  whatever value was assigned last: the dictionary a scan builds, or what an import
  read. \<open>selected_languages\<close> is assigned by \<open>update_config_from_ui\<close> only: it is \<open>None\<close>
  until the first scan.\<close>

record app =
  current_directory :: string
  app_results :: json
  include_patterns :: "string list"
  exclude_patterns :: "string list"
  selected_languages :: "string list option"

text \<open>\<open>not x\<close>\<close>

definition falsy :: "json \<Rightarrow> bool" where
  "falsy x =
     (case x of
        JNull \<Rightarrow> True
      | JBool b \<Rightarrow> \<not> b
      | JNum i \<Rightarrow> i = 0
      | JStr s \<Rightarrow> s = []
      | JArr xs \<Rightarrow> xs = []
      | JObj kvs \<Rightarrow> kvs = [])"

text \<open>The dictionary \<open>export_data\<close> (lines 1011-1020).\<close>

definition export_data :: "app \<Rightarrow> string \<Rightarrow> string list \<Rightarrow> json" where
  "export_data self now sel =
     JObj [(''directory'', JStr (current_directory self)),
           (''timestamp'', JStr now),
           (''results'', app_results self),
           (''config'',
              JObj [(''include_patterns'', JArr (map JStr (include_patterns self))),
                    (''exclude_patterns'', JArr (map JStr (exclude_patterns self))),
                    (''selected_languages'', JArr (map JStr sel))])]"

text \<open>What an export leaves behind: nothing, or a file that holds the text written.\<close>

datatype export_outcome = NothingToExport | NoFileChosen | ExportFailed | Exported string

text \<open>\<open>export_results\<close>: \<open>chosen\<close> is the answer of the file dialog (empty when it is
  cancelled), \<open>now\<close> is \<open>datetime.now().isoformat()\<close>, and \<open>can_write\<close> tells of a path
  whether \<open>open(file_path, 'w')\<close> and the write succeed. Reading
  \<open>self.selected_languages\<close> before it was assigned raises, as does a failing write;
  the handler (lines 1026-1027) reports the failure, and no snapshot is there to be
  read back.\<close>

definition export_results :: "app \<Rightarrow> string \<Rightarrow> string \<Rightarrow> (string \<Rightarrow> bool) \<Rightarrow> export_outcome" where
  "export_results self chosen now can_write =
     (if falsy (app_results self) then NothingToExport
      else if chosen = [] then NoFileChosen
      else (case selected_languages self of
              None \<Rightarrow> ExportFailed
            | Some sel \<Rightarrow>
                if can_write chosen then Exported (json_dumps (export_data self now sel))
                else ExportFailed))"

datatype import_outcome = ImportFailed | Imported app

text \<open>\<open>import_results\<close> for a file that was chosen: \<open>content\<close> is the text of the file,
  \<open>None\<close> when it cannot be read. A text that \<open>json.load\<close> refuses, and a document
  that is not a dictionary (it has no \<open>get\<close>), end in the handler (lines 1046-1047)
  with \<open>self.results\<close> as it was; otherwise
  \<open>self.results = import_data.get("results", {})\<close>.\<close>

definition import_results :: "app \<Rightarrow> string option \<Rightarrow> import_outcome" where
  "import_results self content =
     (case content of
        None \<Rightarrow> ImportFailed
      | Some text \<Rightarrow>
          (case json_loads text of
             None \<Rightarrow> ImportFailed
           | Some import_data \<Rightarrow>
               (case import_data of
                  JObj kvs \<Rightarrow>
                    Imported (self\<lparr>app_results :=
                                (case map_of kvs ''results'' of None \<Rightarrow> JObj [] | Some r \<Rightarrow> r)\<rparr>)
                | _ \<Rightarrow> ImportFailed)))"

text \<open>What the display reads after an import. \<open>d[key]\<close> for a dictionary, \<open>None\<close> where
  Python raises.\<close>

definition item :: "json \<Rightarrow> string \<Rightarrow> json option" where
  "item d key = (case d of JObj kvs \<Rightarrow> map_of kvs key | _ \<Rightarrow> None)"

definition int_item :: "json \<Rightarrow> string \<Rightarrow> int option" where
  "int_item d key = (case item d key of Some (JNum i) \<Rightarrow> Some i | _ \<Rightarrow> None)"

text \<open>The counters \<open>total_lines\<close>, \<open>code_lines\<close>, \<open>comment_lines\<close> and \<open>empty_lines\<close> of a
  dictionary, of a language (lines 859-862) or of a file (lines 920-923).\<close>

definition counters_of :: "json \<Rightarrow> (int \<times> int \<times> int \<times> int) option" where
  "counters_of d =
     (case (int_item d ''total_lines'', int_item d ''code_lines'',
            int_item d ''comment_lines'', int_item d ''empty_lines'') of
        (Some t, Some c, Some m, Some e) \<Rightarrow> Some (t, c, m, e)
      | _ \<Rightarrow> None)"

text \<open>\<open>for language, data in self.results.items()\<close> in \<open>update_results_ui\<close>: the four
  counters of every language.\<close>

fun language_rows_of :: "(string \<times> json) list \<Rightarrow> (string \<times> int \<times> int \<times> int \<times> int) list option" where
  "language_rows_of [] = Some []"
| "language_rows_of ((language, data) # rest) =
     (case counters_of data of
        None \<Rightarrow> None
      | Some c \<Rightarrow>
          (case language_rows_of rest of
             None \<Rightarrow> None
           | Some rows \<Rightarrow> Some ((language, c) # rows)))"

definition language_rows :: "json \<Rightarrow> (string \<times> int \<times> int \<times> int \<times> int) list option" where
  "language_rows res = (case res of JObj kvs \<Rightarrow> language_rows_of kvs | _ \<Rightarrow> None)"

text \<open>\<open>for file_data in data["files"]\<close> in \<open>update_detail_text\<close>: the four counters of
  every file of every language.\<close>

fun counters_of_files :: "json list \<Rightarrow> (int \<times> int \<times> int \<times> int) list option" where
  "counters_of_files [] = Some []"
| "counters_of_files (file_data # rest) =
     (case counters_of file_data of
        None \<Rightarrow> None
      | Some c \<Rightarrow>
          (case counters_of_files rest of
             None \<Rightarrow> None
           | Some rows \<Rightarrow> Some (c # rows)))"

fun file_rows_of :: "(string \<times> json) list \<Rightarrow> (string \<times> (int \<times> int \<times> int \<times> int) list) list option" where
  "file_rows_of [] = Some []"
| "file_rows_of ((language, data) # rest) =
     (case item data ''files'' of
        Some (JArr fs) \<Rightarrow>
          (case counters_of_files fs of
             None \<Rightarrow> None
           | Some cs \<Rightarrow>
               (case file_rows_of rest of
                  None \<Rightarrow> None
                | Some rows \<Rightarrow> Some ((language, cs) # rows)))
      | _ \<Rightarrow> None)"

definition file_rows :: "json \<Rightarrow> (string \<times> (int \<times> int \<times> int \<times> int) list) list option" where
  "file_rows res = (case res of JObj kvs \<Rightarrow> file_rows_of kvs | _ \<Rightarrow> None)"


section \<open>The comparator: \<open>ModernCodeCounterApp.perform_comparison\<close>\<close>

text \<open>What the comparison prints for one language, and overall.\<close>

record lang_delta =
  d_language :: string
  d_files1 :: int
  d_files2 :: int
  d_files_diff :: int
  d_lines1 :: int
  d_lines2 :: int
  d_lines_diff :: int
  d_code1 :: int
  d_code2 :: int
  d_code_diff :: int

record comparison =
  c_total_files1 :: int
  c_total_files2 :: int
  c_files_diff :: int
  c_total_lines1 :: int
  c_total_lines2 :: int
  c_lines_diff :: int
  c_languages :: "lang_delta list"

text \<open>\<open>data.get("results", {})\<close>\<close>

definition results_of :: "snapshot \<Rightarrow> results" where
  "results_of d = (case snap_results d of None \<Rightarrow> [] | Some r \<Rightarrow> r)"

text \<open>The dictionary used for a language that a snapshot lacks (lines 1117-1118).\<close>

definition no_data :: lang_data where
  "no_data = \<lparr>l_files = [], l_total_lines = 0, l_code_lines = 0,
              l_comment_lines = 0, l_empty_lines = 0\<rparr>"

definition data_of :: "results \<Rightarrow> string \<Rightarrow> lang_data" where
  "data_of r language = (case map_of r language of None \<Rightarrow> no_data | Some d \<Rightarrow> d)"

definition total_files :: "results \<Rightarrow> int" where
  "total_files r = sum_list (map (\<lambda>d. int (length (l_files d))) (map snd r))"

definition total_lines :: "results \<Rightarrow> int" where
  "total_lines r = sum_list (map l_total_lines (map snd r))"

text \<open>\<open>sorted(set(results1.keys()) | set(results2.keys()))\<close>\<close>

definition all_languages :: "results \<Rightarrow> results \<Rightarrow> string list" where
  "all_languages results1 results2 =
     sorted_list_of_set (set (map fst results1) \<union> set (map fst results2))"

text \<open>The body of \<open>for language in sorted(all_languages)\<close>.\<close>

definition compare_language :: "results \<Rightarrow> results \<Rightarrow> string \<Rightarrow> lang_delta" where
  "compare_language results1 results2 language =
     (let data1 = data_of results1 language;
          data2 = data_of results2 language;
          files1 = int (length (l_files data1));
          files2 = int (length (l_files data2));
          lines1 = l_total_lines data1;
          lines2 = l_total_lines data2;
          code1 = l_code_lines data1;
          code2 = l_code_lines data2
      in \<lparr>d_language = language,
          d_files1 = files1, d_files2 = files2, d_files_diff = files2 - files1,
          d_lines1 = lines1, d_lines2 = lines2, d_lines_diff = lines2 - lines1,
          d_code1 = code1, d_code2 = code2, d_code_diff = code2 - code1\<rparr>)"

definition perform_comparison :: "snapshot \<Rightarrow> snapshot \<Rightarrow> comparison" where
  "perform_comparison data1 data2 =
     (let results1 = results_of data1;
          results2 = results_of data2;
          total_files1 = total_files results1;
          total_files2 = total_files results2;
          total_lines1 = total_lines results1;
          total_lines2 = total_lines results2
      in \<lparr>c_total_files1 = total_files1, c_total_files2 = total_files2,
          c_files_diff = total_files2 - total_files1,
          c_total_lines1 = total_lines1, c_total_lines2 = total_lines2,
          c_lines_diff = total_lines2 - total_lines1,
          c_languages = map (compare_language results1 results2)
                            (all_languages results1 results2)\<rparr>)"


section \<open>Concrete inputs\<close>

text \<open>\<open>language_configs.get(language, {})\<close> for three languages of the default table.\<close>

definition c_config :: language_config where
  "c_config = config_of DEFAULT_LANGUAGES ''C/C++''"

definition html_config :: language_config where
  "html_config = config_of DEFAULT_LANGUAGES ''HTML/CSS''"

definition python_config :: language_config where
  "python_config = config_of DEFAULT_LANGUAGES ''Python''"

text \<open>The state after a C line that opened a block comment.\<close>

definition inside_c_block :: scan_state where
  "inside_c_block = \<lparr>empty_lines = 0, comment_lines = 1, code_lines = 0,
                      block_comment = Some (''/*'', ''*/'')\<rparr>"

text \<open>A small directory tree: two files at the top, a hidden directory, and a source
  directory with a test directory below it.\<close>

definition example_tree :: fs_dir where
  "example_tree =
     Dir [''a.py'', ''test_a.py'']
         [(''.git'', Dir [''config''] []),
          (''src'', Dir [''m.c''] [(''tests'', Dir [''t.c''] [])])]"

text \<open>Two results, and the snapshots that hold them.\<close>

definition example_file :: file_metrics where
  "example_file = \<lparr>f_total_lines = 3, f_empty_lines = 1, f_comment_lines = 1,
                     f_code_lines = 1, f_file_path = ''proj/a.py'', f_file_name = ''a.py''\<rparr>"

definition results_A :: results where
  "results_A =
     [(''Python'', \<lparr>l_files = [example_file], l_total_lines = 3, l_code_lines = 1,
                    l_comment_lines = 1, l_empty_lines = 1\<rparr>),
      (''C/C++'', \<lparr>l_files = [], l_total_lines = 4, l_code_lines = 4,
                   l_comment_lines = 0, l_empty_lines = 0\<rparr>)]"

definition results_B :: results where
  "results_B =
     [(''Go'', \<lparr>l_files = [], l_total_lines = 7, l_code_lines = 5,
                l_comment_lines = 2, l_empty_lines = 0\<rparr>)]"

definition snapshot_of :: "results \<Rightarrow> snapshot" where
  "snapshot_of r = \<lparr>snap_directory = Some ''proj'', snap_timestamp = Some ''2024-01-01T00:00:00'',
                    snap_results = Some r,
                    snap_config = Some \<lparr>x_include_patterns = [''*''], x_exclude_patterns = [],
                                        x_selected_languages = [''Python'', ''C/C++'']\<rparr>\<rparr>"

definition example_app :: app where
  "example_app = \<lparr>current_directory = ''proj'', app_results = json_of_results results_A,
                   include_patterns = [''*''], exclude_patterns = [],
                   selected_languages = Some [''Python'', ''C/C++'']\<rparr>"

definition fresh_app :: app where
  "fresh_app = \<lparr>current_directory = [], app_results = JObj [],
                 include_patterns = [''*''], exclude_patterns = [],
                 selected_languages = None\<rparr>"


section \<open>Facts about the string primitives and the loops of the scanner\<close>

lemma startswith_iff: "startswith s m \<longleftrightarrow> (\<exists>post. s = m @ post)"
proof
  assume "startswith s m"
  then have "s = m @ drop (length m) s"
    unfolding startswith_def by (metis append_take_drop_id)
  then show "\<exists>post. s = m @ post" ..
next
  assume "\<exists>post. s = m @ post"
  then show "startswith s m" by (auto simp: startswith_def)
qed

lemma py_in_iff: "py_in sub s \<longleftrightarrow> (\<exists>pre post. s = pre @ sub @ post)"
proof (induction s)
  case Nil
  show ?case by (auto simp: py_in_def)
next
  case (Cons c cs)
  show ?case
  proof (cases "startswith (c # cs) sub")
    case True
    then obtain post where "c # cs = [] @ sub @ post" by (auto simp: startswith_iff)
    then have "\<exists>pre post. c # cs = pre @ sub @ post" by blast
    with True show ?thesis by (simp add: py_in_def)
  next
    case False
    have "(\<exists>pre post. c # cs = pre @ sub @ post) \<longleftrightarrow> (\<exists>pre post. cs = pre @ sub @ post)"
    proof
      assume "\<exists>pre post. c # cs = pre @ sub @ post"
      then obtain pre post where pp: "c # cs = pre @ sub @ post" by blast
      show "\<exists>pre post. cs = pre @ sub @ post"
      proof (cases pre)
        case Nil
        with pp False show ?thesis by (auto simp: startswith_iff)
      next
        case (Cons a pre')
        with pp have "cs = pre' @ sub @ post" by simp
        then show ?thesis by blast
      qed
    next
      assume "\<exists>pre post. cs = pre @ sub @ post"
      then obtain pre post where "cs = pre @ sub @ post" by blast
      then have "c # cs = (c # pre) @ sub @ post" by simp
      then show "\<exists>pre post. c # cs = pre @ sub @ post" by blast
    qed
    with Cons False show ?thesis by (simp add: py_in_def)
  qed
qed

lemma py_in_drop: "py_in sub (drop k s) \<Longrightarrow> py_in sub s"
proof -
  assume "py_in sub (drop k s)"
  then obtain pre post where "drop k s = pre @ sub @ post" by (auto simp: py_in_iff)
  then have "s = (take k s @ pre) @ sub @ post"
    by (metis append_take_drop_id append_assoc)
  then show ?thesis unfolding py_in_iff by blast
qed

lemma pair_loop_skip:
  "block_comment st = None \<Longrightarrow> \<forall>p\<in>set pre. \<not> py_in (fst p) L \<Longrightarrow>
     pair_loop L (pre @ rest) st = pair_loop L rest st"
  by (induction pre) (auto)

lemma lstrip_marker:
  assumes ws: "\<forall>c\<in>set ws. is_space c" and m: "m \<noteq> []" "\<not> is_space (hd m)"
  shows "dropWhile is_space (ws @ m @ text) = m @ text"
proof -
  from m obtain a m' where am: "m = a # m'" "\<not> is_space a" by (cases m) auto
  have "dropWhile is_space (ws @ (m @ text)) = dropWhile is_space (m @ text)"
    by (rule dropWhile_append2) (use ws in blast)
  also have "\<dots> = m @ text" using am by simp
  finally show ?thesis .
qed

lemma rstrip_marker:
  assumes m: "m \<noteq> []" "\<not> is_space (last m)"
  shows "\<exists>t. rev (dropWhile is_space (rev (m @ text))) = m @ t"
proof (cases "\<forall>c\<in>set text. is_space c")
  case True
  from m have "rev m \<noteq> []" "\<not> is_space (hd (rev m))" by (simp_all add: hd_rev)
  then obtain a r where ar: "rev m = a # r" "\<not> is_space a" by (cases "rev m") auto
  have "dropWhile is_space (rev text @ rev m) = dropWhile is_space (rev m)"
    by (rule dropWhile_append2) (use True in simp)
  also have "\<dots> = rev m" using ar by simp
  finally have "rev (dropWhile is_space (rev (m @ text))) = m @ []" by simp
  then show ?thesis by blast
next
  case False
  then obtain x where x: "x \<in> set (rev text)" "\<not> is_space x" by auto
  have "dropWhile is_space (rev text @ rev m) = dropWhile is_space (rev text) @ rev m"
    using x by (simp add: dropWhile_append1)
  then have "rev (dropWhile is_space (rev (m @ text))) = m @ rev (dropWhile is_space (rev text))"
    by simp
  then show ?thesis by blast
qed

lemma strip_marker_line:
  assumes "\<forall>c\<in>set ws. is_space c" "m \<noteq> []" "\<not> is_space (hd m)" "\<not> is_space (last m)"
  shows "\<exists>t. strip (ws @ m @ text) = m @ t"
proof -
  have "strip (ws @ m @ text) = rev (dropWhile is_space (rev (m @ text)))"
    unfolding strip_def using lstrip_marker[OF assms(1,2,3)] by simp
  with rstrip_marker[OF assms(2,4)] show ?thesis by simp
qed

lemma marker_loop_member:
  "m \<in> set ms \<Longrightarrow> m \<noteq> [] \<Longrightarrow> startswith L m \<Longrightarrow> marker_loop L ms"
  by (induction ms) auto

lemma pair_loop_effect:
  "pair_loop L pairs st = (st', lcc') \<Longrightarrow>
     (st' = st \<and> lcc' = L) \<or>
     (lcc' = [] \<and> comment_lines st' = comment_lines st + 1 \<and> empty_lines st' = empty_lines st
        \<and> (code_lines st' = code_lines st \<or> code_lines st' = code_lines st + 1))"
proof (induction pairs)
  case Nil
  then show ?case by simp
next
  case (Cons p pairs)
  obtain s e where p: "p = (s, e)" by (cases p)
  from Cons show ?case unfolding p
    by (auto simp: Let_def split: option.splits if_splits)
qed

lemma process_line_effect:
  assumes "process_line cfg st line = st'"
  shows "(empty_lines st' = empty_lines st + 1 \<and> comment_lines st' = comment_lines st \<and> code_lines st' = code_lines st)
       \<or> (empty_lines st' = empty_lines st \<and> comment_lines st' = comment_lines st + 1 \<and> code_lines st' = code_lines st)
       \<or> (empty_lines st' = empty_lines st \<and> comment_lines st' = comment_lines st \<and> code_lines st' = code_lines st + 1)
       \<or> (empty_lines st' = empty_lines st \<and> comment_lines st' = comment_lines st + 1 \<and> code_lines st' = code_lines st + 1)"
proof (cases "strip line = []")
  case True
  with assms show ?thesis by (auto simp: process_line_def)
next
  case False
  obtain st1 lcc where pl: "pair_loop (strip line) (multi_line_comments cfg) st = (st1, lcc)"
    by (cases "pair_loop (strip line) (multi_line_comments cfg) st")
  from pair_loop_effect[OF pl] False assms pl show ?thesis
    by (auto simp: process_line_def Let_def split: if_splits)
qed

lemma scan_lines_bounds:
  "scan_lines cfg st lines = st' \<Longrightarrow>
     empty_lines st \<le> empty_lines st' \<and> empty_lines st' \<le> empty_lines st + int (length lines) \<and>
     comment_lines st \<le> comment_lines st' \<and> comment_lines st' \<le> comment_lines st + int (length lines) \<and>
     code_lines st \<le> code_lines st' \<and> code_lines st' \<le> code_lines st + int (length lines) \<and>
     empty_lines st + comment_lines st + code_lines st + int (length lines)
        \<le> empty_lines st' + comment_lines st' + code_lines st' \<and>
     empty_lines st' + comment_lines st' + code_lines st'
        \<le> empty_lines st + comment_lines st + code_lines st + 2 * int (length lines)"
proof (induction lines arbitrary: st)
  case Nil
  then show ?case by (simp add: scan_lines_def)
next
  case (Cons l lines)
  define st1 where "st1 = process_line cfg st l"
  have step: "scan_lines cfg st1 lines = st'"
    using Cons.prems by (simp add: scan_lines_def st1_def)
  note ih = Cons.IH[OF step]
  have eff: "process_line cfg st l = st1" by (simp add: st1_def)
  from process_line_effect[OF eff] ih show ?case
    by (elim disjE) simp_all
qed


section \<open>Blank lines\<close>

text \<open>
  Claim C3. A line whose stripped form is empty adds one to the blank-line counter and
  changes nothing else: neither the other counters nor the block-comment state,
  whatever that state is. So a whitespace-only line inside an open block comment is a
  blank line, not a comment line.
\<close>

theorem blank_line_counted_blank:
  "strip line = [] \<Longrightarrow>
     process_line cfg st line = st\<lparr>empty_lines := empty_lines st + 1\<rparr>"
  by (simp add: process_line_def)

text \<open>A line of a space, a tab and a newline, read inside an open C block comment.\<close>

theorem blank_line_counted_blank_witness:
  "strip [CHR 0x20, CHR 0x09, CHR 0x0A] = [] \<and>
   process_line c_config inside_c_block [CHR 0x20, CHR 0x09, CHR 0x0A] =
     \<lparr>empty_lines = 1, comment_lines = 1, code_lines = 0,
      block_comment = Some (''/*'', ''*/'')\<rparr>"
proof -
  have h: "strip [CHR 0x20, CHR 0x09, CHR 0x0A] = []" by code_simp
  from blank_line_counted_blank[OF h, of c_config inside_c_block] h
  show ?thesis by (simp add: inside_c_block_def)
qed


section \<open>Bounds on the counters of a file\<close>

text \<open>
  Claim C10. A file that was read gets a result, and in it each of the blank, comment
  and code counters lies between 0 and the number of lines, while their sum lies
  between the number of lines and twice that number.
\<close>

theorem analyze_file_bounds:
  "\<exists>m. analyze_file file_path (Some lines) cfg = Some m \<and>
       f_total_lines m = int (length lines) \<and>
       0 \<le> f_empty_lines m \<and> f_empty_lines m \<le> f_total_lines m \<and>
       0 \<le> f_comment_lines m \<and> f_comment_lines m \<le> f_total_lines m \<and>
       0 \<le> f_code_lines m \<and> f_code_lines m \<le> f_total_lines m \<and>
       f_total_lines m \<le> f_empty_lines m + f_comment_lines m + f_code_lines m \<and>
       f_empty_lines m + f_comment_lines m + f_code_lines m \<le> 2 * f_total_lines m"
  using scan_lines_bounds[of cfg initial_state lines "scan_lines cfg initial_state lines"]
  by (simp add: analyze_file_def Let_def initial_state_def)

text \<open>A C file of three lines: a block comment with a blank line inside it.\<close>

theorem analyze_file_bounds_witness:
  "analyze_file ''proj/a.c'' (Some [''/* start'' @ [CHR 0x0A], ''  '' @ [CHR 0x0A], ''end */'']) c_config =
     Some \<lparr>f_total_lines = 3, f_empty_lines = 1, f_comment_lines = 2, f_code_lines = 0,
           f_file_path = ''proj/a.c'', f_file_name = ''a.c''\<rparr> \<and>
   (3::int) \<le> 1 + 2 + 0 \<and> (1::int) + 2 + 0 \<le> 2 * 3"
proof -
  have e: "analyze_file ''proj/a.c'' (Some [''/* start'' @ [CHR 0x0A], ''  '' @ [CHR 0x0A], ''end */'']) c_config =
     Some \<lparr>f_total_lines = 3, f_empty_lines = 1, f_comment_lines = 2, f_code_lines = 0,
           f_file_path = ''proj/a.c'', f_file_name = ''a.c''\<rparr>"
    by code_simp
  from analyze_file_bounds[of "''proj/a.c''"
        "[''/* start'' @ [CHR 0x0A], ''  '' @ [CHR 0x0A], ''end */'']" c_config]
  obtain m where
    "analyze_file ''proj/a.c'' (Some [''/* start'' @ [CHR 0x0A], ''  '' @ [CHR 0x0A], ''end */'']) c_config = Some m"
    "f_total_lines m \<le> f_empty_lines m + f_comment_lines m + f_code_lines m"
    "f_empty_lines m + f_comment_lines m + f_code_lines m \<le> 2 * f_total_lines m"
    by blast
  with e show ?thesis by simp
qed


section \<open>A block comment that starts on a line and does not end on it\<close>

text \<open>
  Claim C1, as amended. On a non-blank line read outside a block comment, let a
  configured pair be the first one, in configured order, whose start marker occurs in
  the stripped line. If the end marker of that pair occurs nowhere in the stripped
  line, the scanner enters the block-comment state with that pair, so its end marker
  is the active one, the line adds one to the comment counter and to no other, and the
  pairs configured after it have no effect on the line.
\<close>

theorem start_only_enters_block:
  assumes "strip line \<noteq> []"
    and "block_comment st = None"
    and "multi_line_comments cfg = pre @ (s, e) # rest"
    and "\<forall>p\<in>set pre. \<not> py_in (fst p) (strip line)"
    and "py_in s (strip line)"
    and "\<not> py_in e (strip line)"
  shows "process_line cfg st line =
           st\<lparr>block_comment := Some (s, e), comment_lines := comment_lines st + 1\<rparr>"
proof -
  have "pair_loop (strip line) (multi_line_comments cfg) st =
          pair_loop (strip line) ((s, e) # rest) st"
    using assms(2,3,4) by (simp add: pair_loop_skip)
  also have "\<dots> = (st\<lparr>block_comment := Some (s, e), comment_lines := comment_lines st + 1\<rparr>, [])"
    using assms(2,5,6) by simp
  finally show ?thesis
    using assms(1,3) by (simp add: process_line_def)
qed

text \<open>The HTML/CSS rules on a line that opens a \<open>/*\<close> comment: the pair of \<open><!--\<close> comes
  first and its start marker is not in the line.\<close>

theorem start_only_enters_block_witness:
  "py_in ''/*'' (strip (''  x /* open'' @ [CHR 0x0A])) \<and>
   \<not> py_in ''*/'' (strip (''  x /* open'' @ [CHR 0x0A])) \<and>
   \<not> py_in ''<!--'' (strip (''  x /* open'' @ [CHR 0x0A])) \<and>
   process_line html_config initial_state (''  x /* open'' @ [CHR 0x0A]) =
     \<lparr>empty_lines = 0, comment_lines = 1, code_lines = 0,
      block_comment = Some (''/*'', ''*/'')\<rparr>"
proof -
  have h1: "strip (''  x /* open'' @ [CHR 0x0A]) \<noteq> []" by code_simp
  have h2: "block_comment initial_state = None" by (simp add: initial_state_def)
  have h3: "multi_line_comments html_config = [(''<!--'', ''-->'')] @ (''/*'', ''*/'') # []"
    by code_simp
  have h4: "\<forall>p\<in>set [(''<!--'', ''-->'')]. \<not> py_in (fst p) (strip (''  x /* open'' @ [CHR 0x0A]))"
    by code_simp
  have h5: "py_in ''/*'' (strip (''  x /* open'' @ [CHR 0x0A]))" by code_simp
  have h6: "\<not> py_in ''*/'' (strip (''  x /* open'' @ [CHR 0x0A]))" by code_simp
  from start_only_enters_block[OF h1 h2 h3 h4 h5 h6] h4 h5 h6
  show ?thesis by (simp add: initial_state_def)
qed

text \<open>
  The claim as it was written speaks of some configured pair whose start marker
  occurs without its end marker. With the HTML/CSS rules, the line
  \<open><!-- a --> /* b\<close> holds the start marker \<open>/*\<close> and no \<open>*/\<close>, but the pair of \<open><!--\<close>
  is tried first, opens and closes on the line, and ends the loop: the scanner stays
  outside a block comment, and the line counts as comment and as code.
\<close>

theorem start_only_later_pair_counterexample:
  "strip ''<!-- a --> /* b'' \<noteq> [] \<and>
   block_comment initial_state = None \<and>
   (''/*'', ''*/'') \<in> set (multi_line_comments html_config) \<and>
   py_in ''/*'' (strip ''<!-- a --> /* b'') \<and>
   \<not> py_in ''*/'' (strip ''<!-- a --> /* b'') \<and>
   process_line html_config initial_state ''<!-- a --> /* b'' =
     \<lparr>empty_lines = 0, comment_lines = 1, code_lines = 1, block_comment = None\<rparr>"
  by code_simp


section \<open>A block comment that opens and closes on one line\<close>

text \<open>
  Claim C4, as amended. On a non-blank line read outside a block comment, let a
  configured pair be the first one, in configured order, whose start marker occurs in
  the stripped line. If the end marker of that pair is found at or after the position
  just past the first occurrence of the start marker, the line adds one to the comment
  counter, and it adds one to the code counter as well exactly when something other
  than whitespace follows that end marker; the scanner stays outside a block comment.
  The C file of the one line \<open>/* a */ int x;\<close> has one line, one comment line and one
  code line.
\<close>

theorem same_line_block_comment_counts:
  assumes "strip line \<noteq> []"
    and "block_comment st = None"
    and "multi_line_comments cfg = pre @ (s, e) # rest"
    and "\<forall>p\<in>set pre. \<not> py_in (fst p) (strip line)"
    and "py_in s (strip line)"
    and "py_find (strip line) e (py_find (strip line) s 0 + int (length s)) = end_idx"
    and "end_idx \<noteq> - 1"
  shows "process_line cfg st line =
           (if strip (slice_from (strip line) (end_idx + int (length e))) \<noteq> []
            then st\<lparr>comment_lines := comment_lines st + 1, code_lines := code_lines st + 1\<rparr>
            else st\<lparr>comment_lines := comment_lines st + 1\<rparr>) \<and>
         (\<exists>m. analyze_file file_path (Some [''/* a */ int x;'' @ [CHR 0x0A]]) c_config = Some m \<and>
              f_total_lines m = 1 \<and> f_comment_lines m = 1 \<and> f_code_lines m = 1)"
proof -
  have scenario: "scan_lines c_config initial_state [''/* a */ int x;'' @ [CHR 0x0A]] =
                    initial_state\<lparr>comment_lines := 1, code_lines := 1\<rparr>"
    by code_simp
  have e_in: "py_in e (strip line)"
  proof (rule ccontr)
    assume "\<not> py_in e (strip line)"
    then have "find_first e (drop k (strip line)) = None" for k
      using py_in_drop[of e k "strip line"] by (cases "find_first e (drop k (strip line))") (auto simp: py_in_def)
    then show False using assms(6,7) by (simp add: py_find_def Let_def split: if_splits)
  qed
  have "pair_loop (strip line) (multi_line_comments cfg) st =
          pair_loop (strip line) ((s, e) # rest) st"
    using assms(2,3,4) by (simp add: pair_loop_skip)
  also have "\<dots> = ((if strip (slice_from (strip line) (end_idx + int (length e))) \<noteq> []
            then st\<lparr>comment_lines := comment_lines st + 1, code_lines := code_lines st + 1\<rparr>
            else st\<lparr>comment_lines := comment_lines st + 1\<rparr>), [])"
    using assms(2,5,6,7) e_in by (simp add: Let_def)
  finally have "process_line cfg st line =
           (if strip (slice_from (strip line) (end_idx + int (length e))) \<noteq> []
            then st\<lparr>comment_lines := comment_lines st + 1, code_lines := code_lines st + 1\<rparr>
            else st\<lparr>comment_lines := comment_lines st + 1\<rparr>)"
    using assms(1,3) by (simp add: process_line_def)
  moreover have "\<exists>m. analyze_file file_path (Some [''/* a */ int x;'' @ [CHR 0x0A]]) c_config = Some m \<and>
              f_total_lines m = 1 \<and> f_comment_lines m = 1 \<and> f_code_lines m = 1"
    by (simp only: analyze_file_def Let_def option.case scenario) simp
  ultimately show ?thesis by blast
qed

text \<open>The C rules on the line \<open>/* a */ int x;\<close>: the end marker is found at index 5, and
  \<open>int x;\<close> follows it.\<close>

theorem same_line_block_comment_counts_witness:
  "py_in ''/*'' (strip (''/* a */ int x;'' @ [CHR 0x0A])) \<and>
   py_find (strip (''/* a */ int x;'' @ [CHR 0x0A])) ''*/''
      (py_find (strip (''/* a */ int x;'' @ [CHR 0x0A])) ''/*'' 0 + 2) = 5 \<and>
   strip (slice_from (strip (''/* a */ int x;'' @ [CHR 0x0A])) 7) = ''int x;'' \<and>
   process_line c_config initial_state (''/* a */ int x;'' @ [CHR 0x0A]) =
     \<lparr>empty_lines = 0, comment_lines = 1, code_lines = 1, block_comment = None\<rparr>"
proof -
  have h1: "strip (''/* a */ int x;'' @ [CHR 0x0A]) \<noteq> []" by code_simp
  have h2: "block_comment initial_state = None" by (simp add: initial_state_def)
  have h3: "multi_line_comments c_config = [] @ (''/*'', ''*/'') # []" by code_simp
  have h4: "\<forall>p\<in>set ([] :: (string \<times> string) list).
              \<not> py_in (fst p) (strip (''/* a */ int x;'' @ [CHR 0x0A]))" by simp
  have h5: "py_in ''/*'' (strip (''/* a */ int x;'' @ [CHR 0x0A]))" by code_simp
  have h6: "py_find (strip (''/* a */ int x;'' @ [CHR 0x0A])) ''*/''
              (py_find (strip (''/* a */ int x;'' @ [CHR 0x0A])) ''/*'' 0 + int (length ''/*'')) = 5"
    by code_simp
  have h7: "(5::int) \<noteq> - 1" by simp
  have h8: "strip (slice_from (strip (''/* a */ int x;'' @ [CHR 0x0A])) (5 + int (length ''*/''))) = ''int x;''"
    by code_simp
  from same_line_block_comment_counts[OF h1 h2 h3 h4 h5 h6 h7] h5 h6 h8
  show ?thesis by (simp add: initial_state_def)
qed

text \<open>
  The claim as it was written speaks of any block comment that opens and closes on the
  line. With the HTML/CSS rules, on the line \<open>/* a */ x <!-- y -->\<close> the comment
  \<open>/* a */\<close> opens and closes and \<open>x <!-- y -->\<close> follows its end marker, but the pair of
  \<open><!--\<close> is tried first and nothing follows \<open>-->\<close>: the line counts as comment only.
\<close>

theorem same_line_later_pair_counterexample:
  "strip ''/* a */ x <!-- y -->'' \<noteq> [] \<and>
   block_comment initial_state = None \<and>
   (''/*'', ''*/'') \<in> set (multi_line_comments html_config) \<and>
   py_in ''/*'' (strip ''/* a */ x <!-- y -->'') \<and>
   py_find (strip ''/* a */ x <!-- y -->'') ''*/''
      (py_find (strip ''/* a */ x <!-- y -->'') ''/*'' 0 + int (length ''/*'')) = 5 \<and>
   strip (slice_from (strip ''/* a */ x <!-- y -->'') (5 + int (length ''*/''))) = ''x <!-- y -->'' \<and>
   process_line html_config initial_state ''/* a */ x <!-- y -->'' =
     \<lparr>empty_lines = 0, comment_lines = 1, code_lines = 0, block_comment = None\<rparr>"
  by code_simp


section \<open>A line that is a single-line comment\<close>

text \<open>Outside a block comment, the pair loop adds to the code counter only through a pair
  whose start marker is in the line, whose end marker is found after the first
  occurrence of the start marker, and behind whose end marker something other than
  whitespace follows.\<close>

lemma pair_loop_code_unchanged_tight:
  "block_comment st \<noteq> None \<or>
   (\<forall>p\<in>set pairs.
      \<not> (py_in (fst p) L \<and>
         py_find L (snd p) (py_find L (fst p) 0 + int (length (fst p))) \<noteq> - 1 \<and>
         strip (slice_from L (py_find L (snd p) (py_find L (fst p) 0 + int (length (fst p)))
                               + int (length (snd p)))) \<noteq> [])) \<Longrightarrow>
     code_lines (fst (pair_loop L pairs st)) = code_lines st"
proof (induction pairs)
  case Nil
  then show ?case by simp
next
  case (Cons p pairs)
  obtain s e where p: "p = (s, e)" by (cases p)
  from Cons show ?case unfolding p
    by (auto simp: Let_def split: option.splits)
qed

text \<open>
  Claim C2, as amended. Take a configured single-line marker that is not empty and
  neither begins nor ends with whitespace, and a line made of whitespace, the marker,
  and any text. Scanning the line adds exactly one to the comment counter, and at most
  one to the code counter. It adds nothing to the code counter when the scanner is
  inside a block comment, or when no configured block-comment pair has its start
  marker in the stripped line, its end marker found after the first occurrence of the
  start marker, and something other than whitespace behind that end marker.
\<close>

theorem single_line_comment_counts:
  assumes "m \<in> set (single_line_comments cfg)"
    and "m \<noteq> []" and "\<not> is_space (hd m)" and "\<not> is_space (last m)"
    and "\<forall>c\<in>set ws. is_space c"
  shows "comment_lines (process_line cfg st (ws @ m @ text)) = comment_lines st + 1 \<and>
         (code_lines (process_line cfg st (ws @ m @ text)) = code_lines st \<or>
          code_lines (process_line cfg st (ws @ m @ text)) = code_lines st + 1) \<and>
         (block_comment st \<noteq> None \<or>
          (\<forall>p\<in>set (multi_line_comments cfg).
              \<not> (py_in (fst p) (strip (ws @ m @ text)) \<and>
                 py_find (strip (ws @ m @ text)) (snd p)
                   (py_find (strip (ws @ m @ text)) (fst p) 0 + int (length (fst p))) \<noteq> - 1 \<and>
                 strip (slice_from (strip (ws @ m @ text))
                          (py_find (strip (ws @ m @ text)) (snd p)
                             (py_find (strip (ws @ m @ text)) (fst p) 0 + int (length (fst p)))
                           + int (length (snd p)))) \<noteq> []))
          \<longrightarrow> code_lines (process_line cfg st (ws @ m @ text)) = code_lines st)"
proof -
  define L where "L = strip (ws @ m @ text)"
  from strip_marker_line[OF assms(5,2,3,4)] obtain t where t: "L = m @ t"
    unfolding L_def by blast
  then have ne: "L \<noteq> []" and sw: "startswith L m"
    using assms(2) by (simp_all add: startswith_def)
  have ml: "marker_loop L (single_line_comments cfg)"
    by (rule marker_loop_member[OF assms(1,2) sw])
  obtain st1 lcc where pl: "pair_loop L (multi_line_comments cfg) st = (st1, lcc)"
    by (cases "pair_loop L (multi_line_comments cfg) st")
  have res: "process_line cfg st (ws @ m @ text) =
               (if lcc = [] then st1 else st1\<lparr>comment_lines := comment_lines st1 + 1\<rparr>)"
  proof (cases "multi_line_comments cfg = []")
    case True
    with pl have "st1 = st" "lcc = L" by simp_all
    then show ?thesis using True ne ml
      by (simp add: process_line_def L_def[symmetric])
  next
    case False
    then show ?thesis using pl ne ml pair_loop_effect[OF pl]
      by (auto simp add: process_line_def L_def[symmetric])
  qed
  from pair_loop_effect[OF pl] have c: "comment_lines (process_line cfg st (ws @ m @ text)) = comment_lines st + 1"
    using res ne by auto
  from pair_loop_effect[OF pl] have b:
    "code_lines (process_line cfg st (ws @ m @ text)) = code_lines st \<or>
     code_lines (process_line cfg st (ws @ m @ text)) = code_lines st + 1"
    using res ne by auto
  have k: "code_lines (process_line cfg st (ws @ m @ text)) = code_lines st"
    if "block_comment st \<noteq> None \<or>
          (\<forall>p\<in>set (multi_line_comments cfg).
              \<not> (py_in (fst p) L \<and>
                 py_find L (snd p) (py_find L (fst p) 0 + int (length (fst p))) \<noteq> - 1 \<and>
                 strip (slice_from L (py_find L (snd p) (py_find L (fst p) 0 + int (length (fst p)))
                                       + int (length (snd p)))) \<noteq> []))"
    using pair_loop_code_unchanged_tight[OF that] pl res by (simp split: if_splits)
  from c b k show ?thesis unfolding L_def by blast
qed

text \<open>The C rules on an indented \<open>// see /* x */\<close>: both markers of the pair are in the
  line, nothing follows the end marker, and the line is a comment line only.\<close>

theorem single_line_comment_counts_witness:
  "''//'' \<in> set (single_line_comments c_config) \<and>
   py_in ''/*'' (strip ([CHR 0x20, CHR 0x09] @ ''//'' @ '' see /* x */'' @ [CHR 0x0A])) \<and>
   py_in ''*/'' (strip ([CHR 0x20, CHR 0x09] @ ''//'' @ '' see /* x */'' @ [CHR 0x0A])) \<and>
   comment_lines (process_line c_config initial_state
                    ([CHR 0x20, CHR 0x09] @ ''//'' @ '' see /* x */'' @ [CHR 0x0A])) = 1 \<and>
   code_lines (process_line c_config initial_state
                    ([CHR 0x20, CHR 0x09] @ ''//'' @ '' see /* x */'' @ [CHR 0x0A])) = 0"
proof -
  have h1: "''//'' \<in> set (single_line_comments c_config)" by code_simp
  have h2: "''//'' \<noteq> []" by simp
  have h3: "\<not> is_space (hd ''//'')" by code_simp
  have h4: "\<not> is_space (last ''//'')" by code_simp
  have h5: "\<forall>c\<in>set [CHR 0x20, CHR 0x09]. is_space c" by code_simp
  have h6: "\<forall>p\<in>set (multi_line_comments c_config).
              \<not> (py_in (fst p) (strip ([CHR 0x20, CHR 0x09] @ ''//'' @ '' see /* x */'' @ [CHR 0x0A])) \<and>
                 py_find (strip ([CHR 0x20, CHR 0x09] @ ''//'' @ '' see /* x */'' @ [CHR 0x0A])) (snd p)
                   (py_find (strip ([CHR 0x20, CHR 0x09] @ ''//'' @ '' see /* x */'' @ [CHR 0x0A])) (fst p) 0
                      + int (length (fst p))) \<noteq> - 1 \<and>
                 strip (slice_from (strip ([CHR 0x20, CHR 0x09] @ ''//'' @ '' see /* x */'' @ [CHR 0x0A]))
                          (py_find (strip ([CHR 0x20, CHR 0x09] @ ''//'' @ '' see /* x */'' @ [CHR 0x0A])) (snd p)
                             (py_find (strip ([CHR 0x20, CHR 0x09] @ ''//'' @ '' see /* x */'' @ [CHR 0x0A])) (fst p) 0
                                + int (length (fst p)))
                           + int (length (snd p)))) \<noteq> [])"
    by code_simp
  have h7: "py_in ''/*'' (strip ([CHR 0x20, CHR 0x09] @ ''//'' @ '' see /* x */'' @ [CHR 0x0A]))"
    by code_simp
  have h8: "py_in ''*/'' (strip ([CHR 0x20, CHR 0x09] @ ''//'' @ '' see /* x */'' @ [CHR 0x0A]))"
    by code_simp
  from single_line_comment_counts[OF h1 h2 h3 h4 h5, of initial_state "'' see /* x */'' @ [CHR 0x0A]"] h6
  have "comment_lines (process_line c_config initial_state
                    ([CHR 0x20, CHR 0x09] @ ''//'' @ '' see /* x */'' @ [CHR 0x0A])) = comment_lines initial_state + 1"
    and "code_lines (process_line c_config initial_state
                    ([CHR 0x20, CHR 0x09] @ ''//'' @ '' see /* x */'' @ [CHR 0x0A])) = code_lines initial_state"
    by blast+
  with h1 h7 h8 show ?thesis by (simp add: initial_state_def)
qed

text \<open>
  The claim as it was written holds for every such line. With the C rules, the line
  \<open>// see /* x */ y\<close> begins with the marker \<open>//\<close>, but the block-comment pairs are
  tried first: \<open>/* x */\<close> opens and closes on the line and \<open>y\<close> follows it, so the
  line adds one to the code counter as well.
\<close>

theorem single_line_with_block_counterexample:
  "''//'' \<in> set (single_line_comments c_config) \<and>
   ''// see /* x */ y'' = [] @ ''//'' @ '' see /* x */ y'' \<and>
   comment_lines (process_line c_config initial_state ''// see /* x */ y'') =
     comment_lines initial_state + 1 \<and>
   code_lines (process_line c_config initial_state ''// see /* x */ y'') =
     code_lines initial_state + 1"
  by code_simp


section \<open>The order in which the pairs are tried\<close>

text \<open>
  Outside a block comment the pairs are tried in configured order, and a pair whose
  start marker occurs in the line ends the loop when its end marker is absent from the
  line or is found after the start marker: the pairs after it, and the positions of
  their markers, play no part.
\<close>

lemma first_deciding_pair_wins:
  assumes "block_comment st = None"
    and "\<forall>p\<in>set pre. \<not> py_in (fst p) L"
    and "py_in s L"
    and "\<not> py_in e L \<or> py_find L e (py_find L s 0 + int (length s)) \<noteq> - 1"
  shows "pair_loop L (pre @ (s, e) # rest) st = pair_loop L [(s, e)] st \<and>
         snd (pair_loop L [(s, e)] st) = []"
proof -
  have "pair_loop L (pre @ (s, e) # rest) st = pair_loop L ((s, e) # rest) st"
    using assms(1,2) by (simp add: pair_loop_skip)
  moreover have "pair_loop L ((s, e) # rest) st = pair_loop L [(s, e)] st \<and>
         snd (pair_loop L [(s, e)] st) = []"
    using assms(1,3,4) by (auto simp: Let_def)
  ultimately show ?thesis by simp
qed

text \<open>
  Claim C5: the first pair whose start marker occurs in the line wins. The code does
  otherwise when the end marker of that pair occurs in the line, but only before the
  start marker (lines 136-149 have no branch for \<open>end_idx == -1\<close>): the loop goes on to
  the next pair. With the HTML/CSS rules, on the line \<open>--> x <!-- /* y\<close> the start marker
  \<open><!--\<close> of the first pair occurs, and the scanner enters a block comment of the second
  pair, whose end marker is \<open>*/\<close>. With the Python rules, the line that opens a doc
  string holds the start marker of the first pair, no pair handles it, and it counts as
  code; the three lines of a doc string count as three code lines.
\<close>

theorem first_pair_passed_over:
  "multi_line_comments html_config = [(''<!--'', ''-->''), (''/*'', ''*/'')] \<and>
   py_in ''<!--'' (strip ''--> x <!-- /* y'') \<and>
   process_line html_config initial_state ''--> x <!-- /* y'' =
     \<lparr>empty_lines = 0, comment_lines = 1, code_lines = 0,
      block_comment = Some (''/*'', ''*/'')\<rparr> \<and>
   py_in (double_quote @ double_quote @ double_quote)
         (strip (double_quote @ double_quote @ double_quote @ ''Doc'' @ [CHR 0x0A])) \<and>
   scan_lines python_config initial_state
     [double_quote @ double_quote @ double_quote @ ''Doc'' @ [CHR 0x0A],
      ''more'' @ [CHR 0x0A],
      double_quote @ double_quote @ double_quote @ [CHR 0x0A]] =
     \<lparr>empty_lines = 0, comment_lines = 0, code_lines = 3, block_comment = None\<rparr>"
  by code_simp


section \<open>Classification by extension\<close>

lemma language_loop_unknown:
  "\<forall>p\<in>set cfgs. \<not> has_extension ext (snd p) \<Longrightarrow> language_loop ext cfgs = ''Unknown''"
  by (induction cfgs) auto

lemma language_loop_first:
  "\<forall>p\<in>set pre. \<not> has_extension ext (snd p) \<Longrightarrow> has_extension ext config \<Longrightarrow>
     language_loop ext (pre @ (lang, config) # post) = lang"
  by (induction pre) auto

text \<open>
  Claim C8. The extension of the path is lower-cased. The result is the language of
  the first entry of the rule table, in its order, whose extension list holds that
  extension; when no entry does, the result is \<open>Unknown\<close>. The function is total: a
  result is returned for every path and every table.
\<close>

theorem classify_first_match:
  "(language_configs = pre @ (lang, config) # post \<and>
      (\<forall>p\<in>set pre. \<not> has_extension (lower (suffix file_path)) (snd p)) \<and>
      has_extension (lower (suffix file_path)) config
      \<longrightarrow> get_language_from_extension file_path language_configs = lang) \<and>
   ((\<forall>p\<in>set language_configs. \<not> has_extension (lower (suffix file_path)) (snd p))
      \<longrightarrow> get_language_from_extension file_path language_configs = ''Unknown'')"
  by (auto simp: get_language_from_extension_def language_loop_unknown language_loop_first)

text \<open>\<open>src/Main.PY\<close> is a Python file by the default table, whose third entry is the first
  to list \<open>.py\<close>; \<open>notes.txt\<close> matches no entry.\<close>

theorem classify_first_match_witness:
  "lower (suffix ''src/Main.PY'') = ''.py'' \<and>
   get_language_from_extension ''src/Main.PY'' DEFAULT_LANGUAGES = ''Python'' \<and>
   get_language_from_extension ''notes.txt'' DEFAULT_LANGUAGES = ''Unknown''"
proof -
  have d: "DEFAULT_LANGUAGES =
             take 2 DEFAULT_LANGUAGES @ (''Python'', python_config) # drop 3 DEFAULT_LANGUAGES"
    by code_simp
  have n: "\<forall>p\<in>set (take 2 DEFAULT_LANGUAGES).
             \<not> has_extension (lower (suffix ''src/Main.PY'')) (snd p)"
    by code_simp
  have h: "has_extension (lower (suffix ''src/Main.PY'')) python_config" by code_simp
  have u: "\<forall>p\<in>set DEFAULT_LANGUAGES. \<not> has_extension (lower (suffix ''notes.txt'')) (snd p)"
    by code_simp
  have l: "lower (suffix ''src/Main.PY'') = ''.py''" by code_simp
  from classify_first_match[where language_configs = DEFAULT_LANGUAGES
        and pre = "take 2 DEFAULT_LANGUAGES" and lang = "''Python''" and config = python_config
        and post = "drop 3 DEFAULT_LANGUAGES" and file_path = "''src/Main.PY''"] d n h
  have a: "get_language_from_extension ''src/Main.PY'' DEFAULT_LANGUAGES = ''Python''"
    by blast
  from classify_first_match[where language_configs = DEFAULT_LANGUAGES
        and file_path = "''notes.txt''"] u
  have b: "get_language_from_extension ''notes.txt'' DEFAULT_LANGUAGES = ''Unknown''"
    by blast
  from l a b show ?thesis by blast
qed


section \<open>Include and exclude patterns\<close>

lemma exclude_loop_iff:
  "exclude_loop p pats \<longleftrightarrow> (\<exists>pat\<in>set pats. pat \<noteq> [] \<and> pat \<noteq> ''*'' \<and> py_in pat p)"
  by (induction pats) auto

lemma include_loop_iff:
  "include_loop p pats \<longleftrightarrow> (\<exists>pat\<in>set pats. pat \<noteq> [] \<and> py_in pat p)"
  by (induction pats) auto

lemma file_kept_iff:
  "file_kept incl excl p \<longleftrightarrow>
     \<not> (\<exists>pat\<in>set excl. pat \<noteq> [] \<and> pat \<noteq> ''*'' \<and> (\<exists>pre post. p = pre @ pat @ post)) \<and>
     (''*'' \<in> set incl \<or> (\<exists>pat\<in>set incl. pat \<noteq> [] \<and> (\<exists>pre post. p = pre @ pat @ post)))"
  unfolding file_kept_def exclude_loop_iff include_loop_iff py_in_iff by auto

text \<open>
  Claim C9. The files collected are the candidate paths of the walk, in its order,
  that pass the filter: a path is dropped when some exclude pattern that is neither
  empty nor \<open>*\<close> is a substring of it; otherwise it is kept exactly when \<open>*\<close> is
  among the include patterns or some non-empty include pattern is a substring of it.
  With no include pattern nothing is collected, and with include \<open>["*"]\<close> and exclude
  \<open>["test"]\<close> the files collected are the candidates that do not contain \<open>test\<close>.
\<close>

theorem collect_files_filter:
  "collect_files dir tree incl excl =
     filter (\<lambda>p. \<not> (\<exists>pat\<in>set excl. pat \<noteq> [] \<and> pat \<noteq> ''*'' \<and> (\<exists>pre post. p = pre @ pat @ post)) \<and>
                 (''*'' \<in> set incl \<or>
                  (\<exists>pat\<in>set incl. pat \<noteq> [] \<and> (\<exists>pre post. p = pre @ pat @ post))))
            (candidate_paths dir tree) \<and>
   collect_files dir tree [] excl = [] \<and>
   collect_files dir tree [''*''] [''test''] =
     filter (\<lambda>p. \<not> (\<exists>pre post. p = pre @ ''test'' @ post)) (candidate_paths dir tree)"
proof (intro conjI)
  show "collect_files dir tree incl excl =
     filter (\<lambda>p. \<not> (\<exists>pat\<in>set excl. pat \<noteq> [] \<and> pat \<noteq> ''*'' \<and> (\<exists>pre post. p = pre @ pat @ post)) \<and>
                 (''*'' \<in> set incl \<or>
                  (\<exists>pat\<in>set incl. pat \<noteq> [] \<and> (\<exists>pre post. p = pre @ pat @ post))))
            (candidate_paths dir tree)"
    unfolding collect_files_def by (rule filter_cong) (simp_all add: file_kept_iff)
  show "collect_files dir tree [] excl = []"
    unfolding collect_files_def by (simp add: file_kept_def)
  have "file_kept [''*''] [''test''] = (\<lambda>p. \<not> (\<exists>pre post. p = pre @ ''test'' @ post))"
    unfolding file_kept_iff by (rule ext) simp
  then show "collect_files dir tree [''*''] [''test''] =
     filter (\<lambda>p. \<not> (\<exists>pre post. p = pre @ ''test'' @ post)) (candidate_paths dir tree)"
    unfolding collect_files_def by simp
qed

text \<open>In the example tree, \<open>proj/test_a.py\<close> is a candidate and is not collected, and
  \<open>proj/src/m.c\<close> is collected.\<close>

theorem collect_files_filter_witness:
  "''proj/test_a.py'' \<in> set (candidate_paths ''proj'' example_tree) \<and>
   ''proj/test_a.py'' \<notin> set (collect_files ''proj'' example_tree [''*''] [''test'']) \<and>
   ''proj/src/m.c'' \<in> set (collect_files ''proj'' example_tree [''*''] [''test'']) \<and>
   collect_files ''proj'' example_tree [] [''test''] = []"
proof -
  have c1: "''proj/test_a.py'' \<in> set (candidate_paths ''proj'' example_tree)" by code_simp
  have c2: "''proj/src/m.c'' \<in> set (candidate_paths ''proj'' example_tree)" by code_simp
  have "''proj/test_a.py'' = ''proj/'' @ ''test'' @ ''_a.py''" by simp
  then have t1: "\<exists>pre post. ''proj/test_a.py'' = pre @ ''test'' @ post" by blast
  have "\<not> py_in ''test'' ''proj/src/m.c''" by code_simp
  then have t2: "\<not> (\<exists>pre post. ''proj/src/m.c'' = pre @ ''test'' @ post)"
    unfolding py_in_iff .
  from collect_files_filter[of "''proj''" example_tree "[''*'']" "[''test'']"]
  have eq: "collect_files ''proj'' example_tree [''*''] [''test''] =
     filter (\<lambda>p. \<not> (\<exists>pre post. p = pre @ ''test'' @ post)) (candidate_paths ''proj'' example_tree)"
    by blast
  have a: "''proj/test_a.py'' \<notin> set (collect_files ''proj'' example_tree [''*''] [''test''])"
    unfolding eq using t1 by simp
  have b: "''proj/src/m.c'' \<in> set (collect_files ''proj'' example_tree [''*''] [''test''])"
    unfolding eq using t2 c2 by simp
  from collect_files_filter[of "''proj''" example_tree "[''*'']" "[''test'']"]
  have e: "collect_files ''proj'' example_tree [] [''test''] = []" by blast
  from c1 a b e show ?thesis by blast
qed


section \<open>Reading back what \<open>json.dump\<close> wrote\<close>

lemma digit_char_digit: "d < 10 \<Longrightarrow> is_digit (digit_char d) \<and> digit_val (digit_char d) = d"
  by (simp add: is_digit_def digit_val_def digit_char_def)

lemma digit_char_zero: "d < 10 \<Longrightarrow> digit_char d = CHR ''0'' \<longleftrightarrow> d = 0"
proof -
  assume d: "d < 10"
  have "digit_char d = CHR ''0'' \<longleftrightarrow> (of_char (digit_char d) :: nat) = of_char (CHR ''0'')"
    by (simp only: of_char_eq_iff)
  also have "\<dots> \<longleftrightarrow> d = 0" using d by (simp add: digit_char_def)
  finally show ?thesis .
qed

lemma is_digit_not_special:
  "is_digit c \<Longrightarrow> c \<noteq> CHR 0x22 \<and> c \<noteq> CHR ''{'' \<and> c \<noteq> CHR ''['' \<and> c \<noteq> CHR '']'' \<and> c \<noteq> CHR ''-''
     \<and> c \<noteq> CHR ''n'' \<and> c \<noteq> CHR ''t'' \<and> c \<noteq> CHR ''f'' \<and> \<not> is_ws c"
  by (auto simp: is_digit_def is_ws_def)

lemma nat_digits_digits: "\<forall>c\<in>set (nat_digits n). is_digit c"
proof (induction n rule: nat_digits.induct)
  case (1 n)
  show ?case
  proof (cases "n < 10")
    case True
    then show ?thesis by (subst nat_digits.simps) (simp add: digit_char_digit)
  next
    case False
    with 1 show ?thesis by (subst nat_digits.simps) (simp add: digit_char_digit)
  qed
qed

lemma nat_digits_nonempty: "nat_digits n \<noteq> []"
  by (subst nat_digits.simps) simp

lemma nat_of_digits_snoc: "nat_of_digits (ds @ [c]) = 10 * nat_of_digits ds + digit_val c"
  by (simp add: nat_of_digits_def)

lemma nat_of_digits_nat_digits: "nat_of_digits (nat_digits n) = n"
proof (induction n rule: nat_digits.induct)
  case (1 n)
  show ?case
  proof (cases "n < 10")
    case True
    then show ?thesis
      by (subst nat_digits.simps) (simp add: nat_of_digits_def digit_char_digit)
  next
    case False
    with 1 have "nat_of_digits (nat_digits (n div 10)) = n div 10" by simp
    with False show ?thesis
      by (subst nat_digits.simps) (simp add: nat_of_digits_snoc digit_char_digit)
  qed
qed

lemma nat_digits_hd: "n \<noteq> 0 \<Longrightarrow> hd (nat_digits n) \<noteq> CHR ''0''"
proof (induction n rule: nat_digits.induct)
  case (1 n)
  show ?case
  proof (cases "n < 10")
    case True
    with 1(2) show ?thesis
      by (subst nat_digits.simps) (simp add: digit_char_zero)
  next
    case False
    then have "n div 10 \<noteq> 0" by simp
    with 1(1) False have "hd (nat_digits (n div 10)) \<noteq> CHR ''0''" by simp
    with False show ?thesis
      by (subst nat_digits.simps) (simp add: nat_digits_nonempty)
  qed
qed

lemma nat_digits_zero: "nat_digits 0 = ''0''"
  using digit_char_zero[of 0] by (subst nat_digits.simps) simp

lemma takeWhile_digits:
  assumes "\<forall>c\<in>set ds. is_digit c" and "num_ok rest"
  shows "takeWhile is_digit (ds @ rest) = ds \<and> dropWhile is_digit (ds @ rest) = rest"
proof (cases rest)
  case Nil
  with assms(1) show ?thesis by simp
next
  case (Cons r rs)
  with assms(2) have "\<not> is_digit r" by (simp add: num_ok_def)
  with assms(1) Cons show ?thesis
    by (simp add: takeWhile_append2 dropWhile_append2)
qed

lemma scan_nat_digits:
  assumes "num_ok rest"
  shows "scan_nat (nat_digits n @ rest) = Some (n, rest)"
proof (cases "n = 0")
  case True
  then show ?thesis by (simp add: nat_digits_zero scan_nat_def)
next
  case False
  obtain c cs where ccs: "nat_digits n = c # cs"
    using nat_digits_nonempty[of n] by (cases "nat_digits n") auto
  with nat_digits_hd[OF False] have c0: "c \<noteq> CHR ''0''" by simp
  from ccs nat_digits_digits[of n] have cd: "is_digit c" by auto
  from takeWhile_digits[OF nat_digits_digits assms, of n]
  have "takeWhile is_digit (nat_digits n @ rest) = nat_digits n"
       "dropWhile is_digit (nat_digits n @ rest) = rest" by simp_all
  then have "scan_nat (nat_digits n @ rest) = Some (nat_of_digits (nat_digits n), rest)"
    unfolding scan_nat_def using c0 cd ccs by simp
  then show ?thesis by (simp add: nat_of_digits_nat_digits)
qed

lemma encode_int_start:
  "\<exists>c cs. encode_int i = c # cs \<and> (c = CHR ''-'' \<or> is_digit c)"
proof (cases "i < 0")
  case True
  then show ?thesis by (simp add: encode_int_def)
next
  case False
  obtain c cs where ccs: "nat_digits (nat i) = c # cs"
    using nat_digits_nonempty[of "nat i"] by (cases "nat_digits (nat i)") auto
  with nat_digits_digits[of "nat i"] have "is_digit c" by auto
  with ccs False show ?thesis by (simp add: encode_int_def)
qed

lemma scan_number_encode_int:
  assumes "num_ok rest"
  shows "scan_number (encode_int i @ rest) = Some (JNum i, rest)"
proof -
  have nf: "\<not> float_follows rest"
    using assms by (cases rest) (auto simp: num_ok_def float_follows_def)
  show ?thesis
  proof (cases "i < 0")
    case True
    then show ?thesis
      using scan_nat_digits[OF assms, of "nat (- i)"] nf
      by (simp add: encode_int_def scan_number_def)
  next
    case False
    obtain c cs where ccs: "nat_digits (nat i) = c # cs"
      using nat_digits_nonempty[of "nat i"] by (cases "nat_digits (nat i)") auto
    with nat_digits_digits[of "nat i"] have "is_digit c" by auto
    then have cm: "c \<noteq> CHR ''-''" using is_digit_not_special by blast
    have "scan_nat (c # cs @ rest) = Some (nat i, rest)"
      using scan_nat_digits[OF assms, of "nat i"] ccs by simp
    with False cm nf ccs show ?thesis
      by (simp add: encode_int_def scan_number_def)
  qed
qed

lemma hex_val_hex_char: "d < 16 \<Longrightarrow> hex_val (hex_char d) = Some d"
  by (simp add: hex_val_def hex_char_def Let_def)

lemma prepend_Some: "prepend c (Some (s, r)) = Some (c # s, r)"
  by (simp add: prepend_def)

lemma hex4_low:
  assumes "(of_char a :: nat) < 32"
  shows "hex4 (CHR ''0'') (CHR ''0'') (hex_char (of_char a div 16)) (hex_char (of_char a mod 16)) = Some a"
proof -
  have z: "hex_val (CHR ''0'') = Some 0" by (simp add: hex_val_def)
  have h1: "hex_val (hex_char (of_char a div 16)) = Some (of_char a div 16)"
    using assms by (intro hex_val_hex_char) simp
  have h2: "hex_val (hex_char (of_char a mod 16)) = Some (of_char a mod 16)"
    by (intro hex_val_hex_char) simp
  have "(of_char a :: nat) div 16 * 16 + of_char a mod 16 = of_char a" by simp
  moreover have "(of_char a :: nat) < 256" using assms by simp
  ultimately show ?thesis
    by (simp add: hex4_def z h1 h2 Let_def)
qed

lemma scanstring_escape: "scanstring (escape_char a @ t) = prepend a (scanstring t)"
proof -
  consider (q) "a = CHR 0x22" | (b) "a = CHR 0x5C" | (c8) "a = CHR 0x08" | (cc) "a = CHR 0x0C"
    | (ca) "a = CHR 0x0A" | (cd) "a = CHR 0x0D" | (c9) "a = CHR 0x09"
    | (low) "a \<noteq> CHR 0x22" "a \<noteq> CHR 0x5C" "a \<noteq> CHR 0x08" "a \<noteq> CHR 0x0C" "a \<noteq> CHR 0x0A"
            "a \<noteq> CHR 0x0D" "a \<noteq> CHR 0x09" "(of_char a :: nat) < 32"
    | (raw) "a \<noteq> CHR 0x22" "a \<noteq> CHR 0x5C" "\<not> (of_char a :: nat) < 32"
    by (cases "(of_char a :: nat) < 32") auto
  then show ?thesis
  proof cases
    case low
    then show ?thesis
      by (simp add: escape_char_def hex4_low)
  next
    case raw
    then have "escape_char a = [a]"
      by (auto simp: escape_char_def)
    with raw show ?thesis by simp
  qed (simp_all add: escape_char_def unescape_def)
qed

lemma scanstring_encoded:
  "scanstring (concat (map escape_char s) @ CHR 0x22 # rest) = Some (s, rest)"
  by (induction s) (simp_all add: scanstring_escape prepend_Some)

lemma scanstring_encode_str:
  "encode_str k @ rest = CHR 0x22 # concat (map escape_char k) @ CHR 0x22 # rest"
  by (simp add: encode_str_def)

lemma dict_set_new: "k \<notin> fst ` set d \<Longrightarrow> dict_set k v d = d @ [(k, v)]"
  by (induction d) auto

lemma py_dict_fold:
  "distinct (map fst (acc @ kvs)) \<Longrightarrow>
     foldl (\<lambda>d kv. dict_set (fst kv) (snd kv) d) acc kvs = acc @ kvs"
proof (induction kvs arbitrary: acc)
  case Nil
  then show ?case by simp
next
  case (Cons kv kvs)
  from Cons.prems have new: "fst kv \<notin> fst ` set acc" by auto
  from Cons.prems have "distinct (map fst ((acc @ [kv]) @ kvs))" by simp
  from Cons.IH[OF this] new show ?case by (simp add: dict_set_new)
qed

lemma py_dict_distinct: "distinct (map fst kvs) \<Longrightarrow> py_dict kvs = kvs"
  using py_dict_fold[of "[]" kvs] by (simp add: py_dict_def)

lemma skip_ws_spaces: "skip_ws (replicate k (CHR 0x20) @ s) = skip_ws s"
  by (induction k) (simp_all add: skip_ws_def is_ws_def)

lemma skip_ws_newline_indent: "skip_ws (newline_indent l @ s) = skip_ws s"
  using skip_ws_spaces[of "2 * l" s] by (simp add: newline_indent_def skip_ws_def is_ws_def)

lemma skip_ws_start: "\<not> is_ws c \<Longrightarrow> skip_ws (c # cs) = c # cs"
  by (simp add: skip_ws_def)

lemma num_ok_newline_indent: "num_ok (newline_indent l @ s)"
  by (simp add: num_ok_def newline_indent_def is_digit_def)

lemma num_ok_comma: "num_ok (CHR '','' # s)"
  by (simp add: num_ok_def is_digit_def)

lemma num_ok_items: "num_ok (encode_items l xs @ newline_indent l0 @ s)"
  by (cases xs) (simp_all add: num_ok_newline_indent num_ok_comma)

lemma num_ok_members: "num_ok (encode_members l kvs @ newline_indent l0 @ s)"
proof (cases kvs)
  case Nil
  then show ?thesis by (simp add: num_ok_newline_indent)
next
  case (Cons kv kvs')
  then show ?thesis by (cases kv) (simp add: num_ok_comma)
qed

lemma minus_not_special: "\<not> is_ws (CHR ''-'') \<and> CHR ''-'' \<noteq> CHR '']''"
  by (simp add: is_ws_def)

lemma encode_start: "\<exists>c cs. encode l v = c # cs \<and> \<not> is_ws c \<and> c \<noteq> CHR '']''"
proof (cases v)
  case JNull
  then show ?thesis by (simp add: is_ws_def)
next
  case (JBool b)
  then show ?thesis by (cases b) (simp_all add: is_ws_def)
next
  case (JNum i)
  from encode_int_start[of i] obtain c cs where e: "encode_int i = c # cs" "c = CHR ''-'' \<or> is_digit c"
    by blast
  from e(2) have "\<not> is_ws c \<and> c \<noteq> CHR '']''"
  proof
    assume "c = CHR ''-''"
    then show ?thesis using minus_not_special by simp
  next
    assume "is_digit c"
    from is_digit_not_special[OF this] show ?thesis by blast
  qed
  with e(1) JNum show ?thesis by simp
next
  case (JStr s)
  then show ?thesis by (simp add: encode_str_def is_ws_def)
next
  case (JArr xs)
  then show ?thesis by (cases xs) (simp_all add: is_ws_def)
next
  case (JObj kvs)
  show ?thesis
  proof (cases kvs)
    case Nil
    with JObj show ?thesis by (simp add: is_ws_def)
  next
    case (Cons kv kvs')
    with JObj show ?thesis by (cases kv) (simp add: is_ws_def)
  qed
qed

lemma skip_ws_encode: "skip_ws (encode l v @ r) = encode l v @ r"
proof -
  from encode_start[of l v] obtain c cs where "encode l v = c # cs" "\<not> is_ws c" by blast
  then show ?thesis by (simp add: skip_ws_start)
qed

lemma scan_once_number:
  assumes "num_ok rest"
  shows "scan_once (Suc m) (encode_int i @ rest) = Some (JNum i, rest)"
proof -
  from encode_int_start[of i] obtain c cs where e: "encode_int i = c # cs" "c = CHR ''-'' \<or> is_digit c"
    by blast
  then have c: "c \<noteq> CHR 0x22" "c \<noteq> CHR ''{''" "c \<noteq> CHR ''[''" "c \<noteq> CHR ''n''" "c \<noteq> CHR ''t''" "c \<noteq> CHR ''f''"
    using is_digit_not_special[of c] by auto
  have "scan_once (Suc m) (c # cs @ rest) = scan_number (c # cs @ rest)"
    using c by (simp add: startswith_def)
  with e scan_number_encode_int[OF assms, of i] show ?thesis by simp
qed

lemma scan_once_string:
  "scan_once (Suc m) (encode_str s @ rest) = Some (JStr s, rest)"
  by (simp add: scanstring_encode_str scanstring_encoded)

lemma scan_array_rest_end:
  "scan_array_rest (Suc m) (newline_indent l0 @ CHR '']'' # rest) = Some ([], rest)"
proof -
  have "skip_ws (newline_indent l0 @ CHR '']'' # rest) = CHR '']'' # rest"
    by (simp add: skip_ws_newline_indent skip_ws_start is_ws_def)
  then show ?thesis by simp
qed

lemma scan_object_rest_end:
  "scan_object_rest (Suc m) (newline_indent l0 @ CHR ''}'' # rest) = Some ([], rest)"
proof -
  have "skip_ws (newline_indent l0 @ CHR ''}'' # rest) = CHR ''}'' # rest"
    by (simp add: skip_ws_newline_indent skip_ws_start is_ws_def)
  then show ?thesis by simp
qed

lemma scan_array_rest_comma:
  assumes "scan_once m (encode l x @ R) = Some (x, R)"
    and "scan_array_rest m R = Some (xs, rest)"
  shows "scan_array_rest (Suc m) (CHR '','' # newline_indent l @ encode l x @ R) = Some (x # xs, rest)"
proof -
  have a: "skip_ws (CHR '','' # newline_indent l @ encode l x @ R) =
             CHR '','' # newline_indent l @ encode l x @ R"
    by (simp add: skip_ws_start is_ws_def)
  have b: "skip_ws (newline_indent l @ encode l x @ R) = encode l x @ R"
    by (simp add: skip_ws_newline_indent skip_ws_encode)
  show ?thesis
    by (simp add: a b assms)
qed

lemma scan_once_array:
  assumes "scan_once m (encode l x @ R) = Some (x, R)"
    and "scan_array_rest m R = Some (xs, rest)"
  shows "scan_once (Suc m) (CHR ''['' # newline_indent l @ encode l x @ R) = Some (JArr (x # xs), rest)"
proof -
  from encode_start[of l x] obtain c cs where e: "encode l x = c # cs" "c \<noteq> CHR '']''" by blast
  have b: "skip_ws (newline_indent l @ encode l x @ R) = c # cs @ R"
    using skip_ws_encode[of l x R] e by (simp add: skip_ws_newline_indent)
  have c: "scan_once m (c # cs @ R) = Some (x, R)" using assms(1) e by simp
  show ?thesis using e(2) assms(2) by (simp add: b c)
qed

lemma scan_member_text:
  "skip_ws (newline_indent l @ encode_str k @ CHR '':'' # CHR 0x20 # encode l v @ R) =
     CHR 0x22 # concat (map escape_char k) @ CHR 0x22 # (CHR '':'' # CHR 0x20 # encode l v @ R)"
  by (simp add: skip_ws_newline_indent encode_str_def skip_ws_start is_ws_def)

lemma scan_colon_text:
  "skip_ws (CHR '':'' # CHR 0x20 # encode l v @ R) = CHR '':'' # CHR 0x20 # encode l v @ R \<and>
   skip_ws (CHR 0x20 # encode l v @ R) = encode l v @ R"
proof -
  have "skip_ws (CHR 0x20 # encode l v @ R) = skip_ws (encode l v @ R)"
    by (simp add: skip_ws_def is_ws_def)
  then show ?thesis by (simp add: skip_ws_encode skip_ws_start is_ws_def)
qed

lemma scan_object_rest_comma:
  assumes "scan_once m (encode l v @ R) = Some (v, R)"
    and "scan_object_rest m R = Some (kvs, rest)"
  shows "scan_object_rest (Suc m)
           (CHR '','' # newline_indent l @ encode_str k @ CHR '':'' # CHR 0x20 # encode l v @ R) =
         Some ((k, v) # kvs, rest)"
proof -
  have a: "skip_ws (CHR '','' # newline_indent l @ encode_str k @ CHR '':'' # CHR 0x20 # encode l v @ R) =
             CHR '','' # newline_indent l @ encode_str k @ CHR '':'' # CHR 0x20 # encode l v @ R"
    by (simp add: skip_ws_start is_ws_def)
  note b = scan_member_text[of l k v R]
  note c = scanstring_encoded[of k "CHR '':'' # CHR 0x20 # encode l v @ R"]
  note d = scan_colon_text[of l v R]
  show ?thesis
    using assms by (simp add: a b c d)
qed

lemma scan_once_object:
  assumes "scan_once m (encode l v @ R) = Some (v, R)"
    and "scan_object_rest m R = Some (kvs, rest)"
  shows "scan_once (Suc m)
           (CHR ''{'' # newline_indent l @ encode_str k @ CHR '':'' # CHR 0x20 # encode l v @ R) =
         Some (JObj (py_dict ((k, v) # kvs)), rest)"
proof -
  note b = scan_member_text[of l k v R]
  note c = scanstring_encoded[of k "CHR '':'' # CHR 0x20 # encode l v @ R"]
  note d = scan_colon_text[of l v R]
  show ?thesis
    using assms by (simp add: b c d)
qed

lemma fuel_Suc: "length (c # s) \<le> n \<Longrightarrow> \<exists>m. n = Suc m \<and> length s \<le> m"
  by (cases n) simp_all

lemma scan_encode:
  "\<forall>n rest. well_formed v \<longrightarrow> num_ok rest \<longrightarrow> length (encode l v @ rest) \<le> n \<longrightarrow>
       scan_once n (encode l v @ rest) = Some (v, rest)"
  "\<forall>n rest l0. well_formed_items xs \<longrightarrow>
       length (encode_items l' xs @ newline_indent l0 @ CHR '']'' # rest) \<le> n \<longrightarrow>
       scan_array_rest n (encode_items l' xs @ newline_indent l0 @ CHR '']'' # rest) = Some (xs, rest)"
  "\<forall>n rest l0. well_formed_members kvs \<longrightarrow>
       length (encode_members l'' kvs @ newline_indent l0 @ CHR ''}'' # rest) \<le> n \<longrightarrow>
       scan_object_rest n (encode_members l'' kvs @ newline_indent l0 @ CHR ''}'' # rest) = Some (kvs, rest)"
proof (induction l v and l' xs and l'' kvs rule: encode_encode_items_encode_members.induct)
  case (1 l)
  show ?case
  proof (intro allI impI)
    fix n rest assume "length (encode l JNull @ rest) \<le> n"
    then obtain m where "n = Suc m" by (cases n) simp_all
    then show "scan_once n (encode l JNull @ rest) = Some (JNull, rest)"
      by (simp add: startswith_def)
  qed
next
  case (2 l b)
  show ?case
  proof (intro allI impI)
    fix n rest assume "length (encode l (JBool b) @ rest) \<le> n"
    then obtain m where "n = Suc m" by (cases n; cases b) simp_all
    then show "scan_once n (encode l (JBool b) @ rest) = Some (JBool b, rest)"
      by (cases b) (simp_all add: startswith_def)
  qed
next
  case (3 l i)
  show ?case
  proof (intro allI impI)
    fix n rest assume ok: "num_ok rest" and len: "length (encode l (JNum i) @ rest) \<le> n"
    from encode_int_start[of i] obtain c cs where "encode_int i = c # cs" by blast
    with len obtain m where "n = Suc m" by (cases n) simp_all
    then show "scan_once n (encode l (JNum i) @ rest) = Some (JNum i, rest)"
      using scan_once_number[OF ok] by simp
  qed
next
  case (4 l s)
  show ?case
  proof (intro allI impI)
    fix n rest assume len: "length (encode l (JStr s) @ rest) \<le> n"
    then obtain m where "n = Suc m" by (cases n) (simp_all add: encode_str_def)
    then show "scan_once n (encode l (JStr s) @ rest) = Some (JStr s, rest)"
      using scan_once_string by simp
  qed
next
  case (5 l)
  show ?case
  proof (intro allI impI)
    fix n rest assume "length (encode l (JArr []) @ rest) \<le> n"
    then obtain m where "n = Suc m" by (cases n) simp_all
    then show "scan_once n (encode l (JArr []) @ rest) = Some (JArr [], rest)"
      by (simp add: skip_ws_start is_ws_def)
  qed
next
  case (6 l x xs)
  show ?case
  proof (intro allI impI)
    fix n rest
    assume w: "well_formed (JArr (x # xs))" and len: "length (encode l (JArr (x # xs)) @ rest) \<le> n"
    define R where "R = encode_items (Suc l) xs @ newline_indent l @ CHR '']'' # rest"
    have shape: "encode l (JArr (x # xs)) @ rest =
                 CHR ''['' # newline_indent (Suc l) @ encode (Suc l) x @ R"
      by (simp add: R_def)
    from len have "length (CHR ''['' # (newline_indent (Suc l) @ encode (Suc l) x @ R)) \<le> n"
      by (simp only: shape)
    from fuel_Suc[OF this] obtain m where m: "n = Suc m"
      and lm: "length (newline_indent (Suc l) @ encode (Suc l) x @ R) \<le> m"
      by blast
    from lm have l1: "length (encode (Suc l) x @ R) \<le> m" by simp
    from lm have l2: "length R \<le> m" by simp
    have ok: "num_ok R" unfolding R_def by (rule num_ok_items)
    from 6(1) w ok l1 have a: "scan_once m (encode (Suc l) x @ R) = Some (x, R)" by simp
    from 6(2) w l2 have b: "scan_array_rest m R = Some (xs, rest)"
      unfolding R_def by simp
    show "scan_once n (encode l (JArr (x # xs)) @ rest) = Some (JArr (x # xs), rest)"
      unfolding shape m by (rule scan_once_array[OF a b])
  qed
next
  case (7 l)
  show ?case
  proof (intro allI impI)
    fix n rest assume "length (encode l (JObj []) @ rest) \<le> n"
    then obtain m where "n = Suc m" by (cases n) simp_all
    then show "scan_once n (encode l (JObj []) @ rest) = Some (JObj [], rest)"
      by (simp add: skip_ws_start is_ws_def)
  qed
next
  case (8 l k v kvs)
  show ?case
  proof (intro allI impI)
    fix n rest
    assume w: "well_formed (JObj ((k, v) # kvs))" and len: "length (encode l (JObj ((k, v) # kvs)) @ rest) \<le> n"
    define R where "R = encode_members (Suc l) kvs @ newline_indent l @ CHR ''}'' # rest"
    have shape: "encode l (JObj ((k, v) # kvs)) @ rest =
                 CHR ''{'' # newline_indent (Suc l) @ encode_str k @ CHR '':'' # CHR 0x20 #
                   encode (Suc l) v @ R"
      by (simp add: R_def)
    from len have "length (CHR ''{'' # (newline_indent (Suc l) @ encode_str k @ CHR '':'' # CHR 0x20 #
                   encode (Suc l) v @ R)) \<le> n"
      by (simp only: shape)
    from fuel_Suc[OF this] obtain m where m: "n = Suc m"
      and lm: "length (newline_indent (Suc l) @ encode_str k @ CHR '':'' # CHR 0x20 #
                   encode (Suc l) v @ R) \<le> m"
      by blast
    from lm have l1: "length (encode (Suc l) v @ R) \<le> m" by simp
    from lm have l2: "length R \<le> m" by simp
    have ok: "num_ok R" unfolding R_def by (rule num_ok_members)
    from 8(1) w ok l1 have a: "scan_once m (encode (Suc l) v @ R) = Some (v, R)" by simp
    from 8(2) w l2 have b: "scan_object_rest m R = Some (kvs, rest)"
      unfolding R_def by simp
    from w have "py_dict ((k, v) # kvs) = (k, v) # kvs"
      by (intro py_dict_distinct) simp
    with scan_once_object[OF a b, of k]
    show "scan_once n (encode l (JObj ((k, v) # kvs)) @ rest) = Some (JObj ((k, v) # kvs), rest)"
      unfolding shape m by simp
  qed
next
  case (9 l)
  show ?case
  proof (intro allI impI)
    fix n rest l0
    assume "length (encode_items l [] @ newline_indent l0 @ CHR '']'' # rest) \<le> n"
    then obtain m where "n = Suc m" by (cases n) (simp_all add: newline_indent_def)
    then show "scan_array_rest n (encode_items l [] @ newline_indent l0 @ CHR '']'' # rest) = Some ([], rest)"
      using scan_array_rest_end by simp
  qed
next
  case (10 l x xs)
  show ?case
  proof (intro allI impI)
    fix n rest l0
    assume w: "well_formed_items (x # xs)"
      and len: "length (encode_items l (x # xs) @ newline_indent l0 @ CHR '']'' # rest) \<le> n"
    define R where "R = encode_items l xs @ newline_indent l0 @ CHR '']'' # rest"
    have shape: "encode_items l (x # xs) @ newline_indent l0 @ CHR '']'' # rest =
                 CHR '','' # newline_indent l @ encode l x @ R"
      by (simp add: R_def)
    from len have "length (CHR '','' # (newline_indent l @ encode l x @ R)) \<le> n"
      by (simp only: shape)
    from fuel_Suc[OF this] obtain m where m: "n = Suc m"
      and lm: "length (newline_indent l @ encode l x @ R) \<le> m"
      by blast
    from lm have l1: "length (encode l x @ R) \<le> m" by simp
    from lm have l2: "length R \<le> m" by simp
    have ok: "num_ok R" unfolding R_def by (rule num_ok_items)
    from 10(1) w ok l1 have a: "scan_once m (encode l x @ R) = Some (x, R)" by simp
    from 10(2) w l2 have b: "scan_array_rest m R = Some (xs, rest)"
      unfolding R_def by simp
    show "scan_array_rest n (encode_items l (x # xs) @ newline_indent l0 @ CHR '']'' # rest) =
            Some (x # xs, rest)"
      unfolding shape m by (rule scan_array_rest_comma[OF a b])
  qed
next
  case (11 l)
  show ?case
  proof (intro allI impI)
    fix n rest l0
    assume "length (encode_members l [] @ newline_indent l0 @ CHR ''}'' # rest) \<le> n"
    then obtain m where "n = Suc m" by (cases n) (simp_all add: newline_indent_def)
    then show "scan_object_rest n (encode_members l [] @ newline_indent l0 @ CHR ''}'' # rest) = Some ([], rest)"
      using scan_object_rest_end by simp
  qed
next
  case (12 l k v kvs)
  show ?case
  proof (intro allI impI)
    fix n rest l0
    assume w: "well_formed_members ((k, v) # kvs)"
      and len: "length (encode_members l ((k, v) # kvs) @ newline_indent l0 @ CHR ''}'' # rest) \<le> n"
    define R where "R = encode_members l kvs @ newline_indent l0 @ CHR ''}'' # rest"
    have shape: "encode_members l ((k, v) # kvs) @ newline_indent l0 @ CHR ''}'' # rest =
                 CHR '','' # newline_indent l @ encode_str k @ CHR '':'' # CHR 0x20 # encode l v @ R"
      by (simp add: R_def)
    from len have "length (CHR '','' # (newline_indent l @ encode_str k @ CHR '':'' # CHR 0x20 # encode l v @ R)) \<le> n"
      by (simp only: shape)
    from fuel_Suc[OF this] obtain m where m: "n = Suc m"
      and lm: "length (newline_indent l @ encode_str k @ CHR '':'' # CHR 0x20 # encode l v @ R) \<le> m"
      by blast
    from lm have l1: "length (encode l v @ R) \<le> m" by simp
    from lm have l2: "length R \<le> m" by simp
    have ok: "num_ok R" unfolding R_def by (rule num_ok_members)
    from 12(1) w ok l1 have a: "scan_once m (encode l v @ R) = Some (v, R)" by simp
    from 12(2) w l2 have b: "scan_object_rest m R = Some (kvs, rest)"
      unfolding R_def by simp
    show "scan_object_rest n (encode_members l ((k, v) # kvs) @ newline_indent l0 @ CHR ''}'' # rest) =
            Some ((k, v) # kvs, rest)"
      unfolding shape m by (rule scan_object_rest_comma[OF a b])
  qed
qed

lemma json_roundtrip: "well_formed v \<Longrightarrow> json_loads (json_dumps v) = Some v"
proof -
  assume w: "well_formed v"
  have s: "skip_ws (encode 0 v) = encode 0 v" using skip_ws_encode[of 0 v "[]"] by simp
  have ok: "num_ok []" by (simp add: num_ok_def)
  from scan_encode(1)[of v 0] w ok
  have "scan_once (length (encode 0 v)) (encode 0 v @ []) = Some (v, [])"
    by (simp del: append_Nil2)
  moreover have "skip_ws [] = []" by (simp add: skip_ws_def)
  ultimately show ?thesis by (simp add: json_loads_def json_dumps_def s)
qed


section \<open>Export and import\<close>

text \<open>The display reads from the Python value of a result the counters of that
  result, and that value has no key twice when no language occurs twice.\<close>

lemma counters_of_file: "counters_of (json_of_file f) = Some (file_counters f)"
  by (simp add: counters_of_def int_item_def item_def json_of_file_def file_counters_def)

lemma counters_of_lang:
  "counters_of (json_of_lang d) =
     Some (l_total_lines d, l_code_lines d, l_comment_lines d, l_empty_lines d)"
  by (simp add: counters_of_def int_item_def item_def json_of_lang_def)

lemma files_of_lang: "item (json_of_lang d) ''files'' = Some (JArr (map json_of_file (l_files d)))"
  by (simp add: item_def json_of_lang_def)

lemma counters_of_files_typed:
  "counters_of_files (map json_of_file fs) = Some (map file_counters fs)"
  by (induction fs) (simp_all add: counters_of_file)

lemma language_rows_typed: "language_rows (json_of_results r) = Some (language_counters r)"
proof -
  have "language_rows_of (map (\<lambda>(language, data). (language, json_of_lang data)) r) =
          Some (language_counters r)"
    by (induction r) (auto simp: counters_of_lang language_counters_def)
  then show ?thesis by (simp add: language_rows_def json_of_results_def)
qed

lemma file_rows_typed: "file_rows (json_of_results r) = Some (per_file_counters r)"
proof -
  have "file_rows_of (map (\<lambda>(language, data). (language, json_of_lang data)) r) =
          Some (per_file_counters r)"
    by (induction r) (auto simp: files_of_lang counters_of_files_typed per_file_counters_def)
  then show ?thesis by (simp add: file_rows_def json_of_results_def)
qed

lemma well_formed_file: "well_formed (json_of_file f)"
  by (simp add: json_of_file_def)

lemma well_formed_files: "well_formed_items (map json_of_file fs)"
  by (induction fs) (simp_all add: well_formed_file)

lemma well_formed_lang: "well_formed (json_of_lang d)"
  by (simp add: json_of_lang_def well_formed_files)

lemma well_formed_langs:
  "well_formed_members (map (\<lambda>(language, data). (language, json_of_lang data)) r)"
  by (induction r) (auto simp: well_formed_lang)

lemma keys_of_results: "map fst (map (\<lambda>(language, data). (language, json_of_lang data)) r) = map fst r"
  by (induction r) auto

lemma well_formed_results: "distinct (map fst r) \<Longrightarrow> well_formed (json_of_results r)"
  using keys_of_results[of r] by (simp add: json_of_results_def well_formed_langs del: map_map)

lemma well_formed_strings: "well_formed_items (map JStr xs)"
  by (induction xs) simp_all

lemma well_formed_export_data:
  "well_formed (app_results self) \<Longrightarrow> well_formed (export_data self now sel)"
  by (simp add: export_data_def well_formed_strings)

lemma falsy_results: "falsy (json_of_results r) \<longleftrightarrow> r = []"
  by (simp add: falsy_def json_of_results_def)

text \<open>
  Claim C6. Take a scan result that is not empty, held by the application as the
  dictionary the scan built, with no language twice. Exporting it, after a scan has
  set the selected languages, to a chosen file that can be written, writes the text
  of a snapshot; importing that text, in any state of the application, succeeds and
  makes \<open>self.results\<close> equal to the result exported. The four counters the display then
  reads for every language, and for every file of every language, are those of the
  original result.
\<close>

theorem export_import_roundtrip:
  assumes "app_results self = json_of_results r" and "r \<noteq> []" and "distinct (map fst r)"
    and "chosen \<noteq> []" and "selected_languages self = Some sel" and "can_write chosen"
  shows "\<exists>written. export_results self chosen now can_write = Exported written \<and>
           import_results other (Some written) = Imported (other\<lparr>app_results := json_of_results r\<rparr>) \<and>
           language_rows (json_of_results r) = Some (language_counters r) \<and>
           file_rows (json_of_results r) = Some (per_file_counters r)"
proof -
  let ?text = "json_dumps (export_data self now sel)"
  have ex: "export_results self chosen now can_write = Exported ?text"
    using assms by (simp add: export_results_def falsy_results)
  have "well_formed (export_data self now sel)"
    using assms(1,3) by (simp add: well_formed_export_data well_formed_results)
  then have ld: "json_loads ?text = Some (export_data self now sel)"
    by (rule json_roundtrip)
  have "import_results other (Some ?text) = Imported (other\<lparr>app_results := json_of_results r\<rparr>)"
    unfolding import_results_def option.case ld
    using assms(1) by (simp add: export_data_def)
  with ex language_rows_typed file_rows_typed show ?thesis by blast
qed

text \<open>The example application exports its results, and a fresh one imports the text
  written.\<close>

theorem export_import_roundtrip_witness:
  "export_results example_app ''out.json'' ''2024-01-01T00:00:00'' (\<lambda>p. p = ''out.json'') =
     Exported (json_dumps (export_data example_app ''2024-01-01T00:00:00'' [''Python'', ''C/C++''])) \<and>
   import_results fresh_app
       (Some (json_dumps (export_data example_app ''2024-01-01T00:00:00'' [''Python'', ''C/C++'']))) =
     Imported (fresh_app\<lparr>app_results := json_of_results results_A\<rparr>) \<and>
   language_rows (json_of_results results_A) = Some [(''Python'', 3, 1, 1, 1), (''C/C++'', 4, 4, 0, 0)] \<and>
   file_rows (json_of_results results_A) = Some [(''Python'', [(3, 1, 1, 1)]), (''C/C++'', [])]"
proof -
  have h1: "app_results example_app = json_of_results results_A" by (simp add: example_app_def)
  have h2: "results_A \<noteq> []" by (simp add: results_A_def)
  have h3: "distinct (map fst results_A)" by (simp add: results_A_def)
  have h4: "''out.json'' \<noteq> []" by simp
  have h5: "selected_languages example_app = Some [''Python'', ''C/C++'']" by (simp add: example_app_def)
  have h6: "(\<lambda>p. p = ''out.json'') ''out.json''" by simp
  have k1: "language_counters results_A = [(''Python'', 3, 1, 1, 1), (''C/C++'', 4, 4, 0, 0)]"
    by code_simp
  have k2: "per_file_counters results_A = [(''Python'', [(3, 1, 1, 1)]), (''C/C++'', [])]"
    by code_simp
  have e: "export_results example_app ''out.json'' ''2024-01-01T00:00:00'' (\<lambda>p. p = ''out.json'') =
     Exported (json_dumps (export_data example_app ''2024-01-01T00:00:00'' [''Python'', ''C/C++'']))"
    using h1 h2 h5 by (simp add: export_results_def falsy_results)
  from export_import_roundtrip[of example_app results_A "''out.json''" "[''Python'', ''C/C++'']"
         "\<lambda>p. p = ''out.json''" "''2024-01-01T00:00:00''" fresh_app, OF h1 h2 h3 h4 h5 h6]
  obtain written where
    t: "export_results example_app ''out.json'' ''2024-01-01T00:00:00'' (\<lambda>p. p = ''out.json'') = Exported written"
       "import_results fresh_app (Some written) = Imported (fresh_app\<lparr>app_results := json_of_results results_A\<rparr>)"
       "language_rows (json_of_results results_A) = Some (language_counters results_A)"
       "file_rows (json_of_results results_A) = Some (per_file_counters results_A)"
    by blast
  from t(1) e have "written = json_dumps (export_data example_app ''2024-01-01T00:00:00'' [''Python'', ''C/C++''])"
    by simp
  with t e k1 k2 show ?thesis by simp
qed

section \<open>Comparing two snapshots\<close>

lemma all_languages_commute: "all_languages r1 r2 = all_languages r2 r1"
  by (simp add: all_languages_def Un_commute)

lemma all_languages_same: "all_languages r r = sorted_list_of_set (fst ` set r)"
  by (simp add: all_languages_def)

lemma compare_language_same:
  "d_files_diff (compare_language r r l) = 0 \<and> d_lines_diff (compare_language r r l) = 0 \<and>
   d_code_diff (compare_language r r l) = 0"
  by (simp add: compare_language_def Let_def)

lemma compare_language_swap:
  "d_language (compare_language r1 r2 l) = l \<and>
   d_files_diff (compare_language r1 r2 l) = - d_files_diff (compare_language r2 r1 l) \<and>
   d_lines_diff (compare_language r1 r2 l) = - d_lines_diff (compare_language r2 r1 l) \<and>
   d_code_diff (compare_language r1 r2 l) = - d_code_diff (compare_language r2 r1 l)"
  by (simp add: compare_language_def Let_def)

lemma compare_language_sides:
  "d_files_diff (compare_language r1 r2 l) = d_files2 (compare_language r1 r2 l) - d_files1 (compare_language r1 r2 l) \<and>
   d_lines_diff (compare_language r1 r2 l) = d_lines2 (compare_language r1 r2 l) - d_lines1 (compare_language r1 r2 l) \<and>
   d_code_diff (compare_language r1 r2 l) = d_code2 (compare_language r1 r2 l) - d_code1 (compare_language r1 r2 l) \<and>
   d_files1 (compare_language r1 r2 l) = (case map_of r1 l of None \<Rightarrow> 0 | Some x \<Rightarrow> int (length (l_files x))) \<and>
   d_lines1 (compare_language r1 r2 l) = (case map_of r1 l of None \<Rightarrow> 0 | Some x \<Rightarrow> l_total_lines x) \<and>
   d_code1 (compare_language r1 r2 l) = (case map_of r1 l of None \<Rightarrow> 0 | Some x \<Rightarrow> l_code_lines x) \<and>
   d_files2 (compare_language r1 r2 l) = (case map_of r2 l of None \<Rightarrow> 0 | Some x \<Rightarrow> int (length (l_files x))) \<and>
   d_lines2 (compare_language r1 r2 l) = (case map_of r2 l of None \<Rightarrow> 0 | Some x \<Rightarrow> l_total_lines x) \<and>
   d_code2 (compare_language r1 r2 l) = (case map_of r2 l of None \<Rightarrow> 0 | Some x \<Rightarrow> l_code_lines x)"
  by (simp add: compare_language_def Let_def data_of_def no_data_def split: option.splits)

lemma c_languages_eq:
  "c_languages (perform_comparison A B) =
     map (compare_language (results_of A) (results_of B)) (all_languages (results_of A) (results_of B))"
  by (simp add: perform_comparison_def Let_def)

lemma overall_diffs:
  "c_files_diff (perform_comparison A B) = total_files (results_of B) - total_files (results_of A) \<and>
   c_lines_diff (perform_comparison A B) = total_lines (results_of B) - total_lines (results_of A)"
  by (simp add: perform_comparison_def Let_def)

text \<open>
  Claim C7. Comparing a snapshot with itself gives the delta 0 for the number of files
  and the number of lines overall, and for the files, lines and code lines of every
  language of the snapshot. The deltas of comparing A with B are the negated deltas of
  comparing B with A, overall and language by language, over the same sorted list of
  languages: those of either snapshot. Every delta is the new value minus the old one,
  as integers, and a language that a snapshot lacks has 0 files, 0 lines and 0 code
  lines on that side.
\<close>

theorem comparison_zero_and_antisymmetric:
  "c_files_diff (perform_comparison A A) = 0 \<and>
   c_lines_diff (perform_comparison A A) = 0 \<and>
   map d_language (c_languages (perform_comparison A A)) =
     sorted_list_of_set (fst ` set (results_of A)) \<and>
   (\<forall>d\<in>set (c_languages (perform_comparison A A)).
       d_files_diff d = 0 \<and> d_lines_diff d = 0 \<and> d_code_diff d = 0) \<and>
   c_files_diff (perform_comparison A B) = - c_files_diff (perform_comparison B A) \<and>
   c_lines_diff (perform_comparison A B) = - c_lines_diff (perform_comparison B A) \<and>
   map d_language (c_languages (perform_comparison A B)) =
     map d_language (c_languages (perform_comparison B A)) \<and>
   map d_files_diff (c_languages (perform_comparison A B)) =
     map (\<lambda>d. - d_files_diff d) (c_languages (perform_comparison B A)) \<and>
   map d_lines_diff (c_languages (perform_comparison A B)) =
     map (\<lambda>d. - d_lines_diff d) (c_languages (perform_comparison B A)) \<and>
   map d_code_diff (c_languages (perform_comparison A B)) =
     map (\<lambda>d. - d_code_diff d) (c_languages (perform_comparison B A)) \<and>
   c_files_diff (perform_comparison A B) = total_files (results_of B) - total_files (results_of A) \<and>
   c_lines_diff (perform_comparison A B) = total_lines (results_of B) - total_lines (results_of A) \<and>
   map d_language (c_languages (perform_comparison A B)) =
     sorted_list_of_set (fst ` set (results_of A) \<union> fst ` set (results_of B)) \<and>
   (\<forall>d\<in>set (c_languages (perform_comparison A B)).
       d_files_diff d = d_files2 d - d_files1 d \<and>
       d_lines_diff d = d_lines2 d - d_lines1 d \<and>
       d_code_diff d = d_code2 d - d_code1 d \<and>
       d_files1 d = (case map_of (results_of A) (d_language d) of
                       None \<Rightarrow> 0 | Some x \<Rightarrow> int (length (l_files x))) \<and>
       d_lines1 d = (case map_of (results_of A) (d_language d) of
                       None \<Rightarrow> 0 | Some x \<Rightarrow> l_total_lines x) \<and>
       d_code1 d = (case map_of (results_of A) (d_language d) of
                       None \<Rightarrow> 0 | Some x \<Rightarrow> l_code_lines x) \<and>
       d_files2 d = (case map_of (results_of B) (d_language d) of
                       None \<Rightarrow> 0 | Some x \<Rightarrow> int (length (l_files x))) \<and>
       d_lines2 d = (case map_of (results_of B) (d_language d) of
                       None \<Rightarrow> 0 | Some x \<Rightarrow> l_total_lines x) \<and>
       d_code2 d = (case map_of (results_of B) (d_language d) of
                       None \<Rightarrow> 0 | Some x \<Rightarrow> l_code_lines x))"
proof -
  have lang: "map d_language (map (compare_language r1 r2) ls) = ls" for r1 r2 ls
    by (induction ls) (simp_all add: compare_language_swap)
  have z1: "c_files_diff (perform_comparison A A) = 0" "c_lines_diff (perform_comparison A A) = 0"
    by (simp_all add: overall_diffs)
  have z2: "map d_language (c_languages (perform_comparison A A)) =
     sorted_list_of_set (fst ` set (results_of A))"
    by (simp only: c_languages_eq lang all_languages_same)
  have z3: "\<forall>d\<in>set (c_languages (perform_comparison A A)).
       d_files_diff d = 0 \<and> d_lines_diff d = 0 \<and> d_code_diff d = 0"
    unfolding c_languages_eq using compare_language_same by auto
  have a1: "c_files_diff (perform_comparison A B) = - c_files_diff (perform_comparison B A)"
     "c_lines_diff (perform_comparison A B) = - c_lines_diff (perform_comparison B A)"
    by (simp_all add: overall_diffs)
  have a2: "map d_language (c_languages (perform_comparison A B)) =
     map d_language (c_languages (perform_comparison B A))"
    unfolding c_languages_eq lang by (rule all_languages_commute)
  have a3: "map d_files_diff (c_languages (perform_comparison A B)) =
     map (\<lambda>d. - d_files_diff d) (c_languages (perform_comparison B A))"
    unfolding c_languages_eq all_languages_commute[of "results_of B" "results_of A"]
    by (simp add: compare_language_def Let_def)
  have a4: "map d_lines_diff (c_languages (perform_comparison A B)) =
     map (\<lambda>d. - d_lines_diff d) (c_languages (perform_comparison B A))"
    unfolding c_languages_eq all_languages_commute[of "results_of B" "results_of A"]
    by (simp add: compare_language_def Let_def)
  have a5: "map d_code_diff (c_languages (perform_comparison A B)) =
     map (\<lambda>d. - d_code_diff d) (c_languages (perform_comparison B A))"
    unfolding c_languages_eq all_languages_commute[of "results_of B" "results_of A"]
    by (simp add: compare_language_def Let_def)
  have s1: "map d_language (c_languages (perform_comparison A B)) =
     sorted_list_of_set (fst ` set (results_of A) \<union> fst ` set (results_of B))"
    by (simp only: c_languages_eq lang all_languages_def set_map)
  have s2: "\<forall>d\<in>set (c_languages (perform_comparison A B)).
       d_files_diff d = d_files2 d - d_files1 d \<and>
       d_lines_diff d = d_lines2 d - d_lines1 d \<and>
       d_code_diff d = d_code2 d - d_code1 d \<and>
       d_files1 d = (case map_of (results_of A) (d_language d) of
                       None \<Rightarrow> 0 | Some x \<Rightarrow> int (length (l_files x))) \<and>
       d_lines1 d = (case map_of (results_of A) (d_language d) of
                       None \<Rightarrow> 0 | Some x \<Rightarrow> l_total_lines x) \<and>
       d_code1 d = (case map_of (results_of A) (d_language d) of
                       None \<Rightarrow> 0 | Some x \<Rightarrow> l_code_lines x) \<and>
       d_files2 d = (case map_of (results_of B) (d_language d) of
                       None \<Rightarrow> 0 | Some x \<Rightarrow> int (length (l_files x))) \<and>
       d_lines2 d = (case map_of (results_of B) (d_language d) of
                       None \<Rightarrow> 0 | Some x \<Rightarrow> l_total_lines x) \<and>
       d_code2 d = (case map_of (results_of B) (d_language d) of
                       None \<Rightarrow> 0 | Some x \<Rightarrow> l_code_lines x)"
  proof
    fix d assume "d \<in> set (c_languages (perform_comparison A B))"
    then obtain l where d: "d = compare_language (results_of A) (results_of B) l"
      unfolding c_languages_eq by auto
    have dl: "d_language d = l" by (simp add: d compare_language_swap)
    show "d_files_diff d = d_files2 d - d_files1 d \<and>
       d_lines_diff d = d_lines2 d - d_lines1 d \<and>
       d_code_diff d = d_code2 d - d_code1 d \<and>
       d_files1 d = (case map_of (results_of A) (d_language d) of
                       None \<Rightarrow> 0 | Some x \<Rightarrow> int (length (l_files x))) \<and>
       d_lines1 d = (case map_of (results_of A) (d_language d) of
                       None \<Rightarrow> 0 | Some x \<Rightarrow> l_total_lines x) \<and>
       d_code1 d = (case map_of (results_of A) (d_language d) of
                       None \<Rightarrow> 0 | Some x \<Rightarrow> l_code_lines x) \<and>
       d_files2 d = (case map_of (results_of B) (d_language d) of
                       None \<Rightarrow> 0 | Some x \<Rightarrow> int (length (l_files x))) \<and>
       d_lines2 d = (case map_of (results_of B) (d_language d) of
                       None \<Rightarrow> 0 | Some x \<Rightarrow> l_total_lines x) \<and>
       d_code2 d = (case map_of (results_of B) (d_language d) of
                       None \<Rightarrow> 0 | Some x \<Rightarrow> l_code_lines x)"
      unfolding dl unfolding d by (rule compare_language_sides)
  qed
  from z1 z2 z3 a1 a2 a3 a4 a5 overall_diffs[of A B] s1 s2 show ?thesis by blast
qed

text \<open>Snapshot A holds Python and C/C++, snapshot B holds Go.\<close>

theorem comparison_zero_and_antisymmetric_witness:
  "d_code_diff (compare_language results_A results_A ''Python'') = 0 \<and>
   map d_language (c_languages (perform_comparison (snapshot_of results_A) (snapshot_of results_B))) =
     [''C/C++'', ''Go'', ''Python''] \<and>
   map d_lines_diff (c_languages (perform_comparison (snapshot_of results_B) (snapshot_of results_A))) =
     [4, - 7, 3] \<and>
   map d_lines_diff (c_languages (perform_comparison (snapshot_of results_A) (snapshot_of results_B))) =
     [- 4, 7, - 3] \<and>
   c_files_diff (perform_comparison (snapshot_of results_A) (snapshot_of results_B)) = - 1"
proof -
  note t = comparison_zero_and_antisymmetric[of "snapshot_of results_A" "snapshot_of results_B"]
  have m: "compare_language results_A results_A ''Python'' \<in>
             set (c_languages (perform_comparison (snapshot_of results_A) (snapshot_of results_A)))"
    by code_simp
  from t have "\<forall>d\<in>set (c_languages (perform_comparison (snapshot_of results_A) (snapshot_of results_A))).
       d_files_diff d = 0 \<and> d_lines_diff d = 0 \<and> d_code_diff d = 0" by blast
  with m have z: "d_code_diff (compare_language results_A results_A ''Python'') = 0" by blast
  have ba: "map d_lines_diff (c_languages (perform_comparison (snapshot_of results_B) (snapshot_of results_A))) =
     [4, - 7, 3]" by code_simp
  from t have "map d_lines_diff (c_languages (perform_comparison (snapshot_of results_A) (snapshot_of results_B))) =
     map (\<lambda>d. - d_lines_diff d) (c_languages (perform_comparison (snapshot_of results_B) (snapshot_of results_A)))"
    by blast
  also have "\<dots> = map uminus (map d_lines_diff (c_languages (perform_comparison (snapshot_of results_B) (snapshot_of results_A))))"
    by (simp add: comp_def)
  also have "\<dots> = [- 4, 7, - 3]" unfolding ba by simp
  finally have ab: "map d_lines_diff (c_languages (perform_comparison (snapshot_of results_A) (snapshot_of results_B))) =
     [- 4, 7, - 3]" .
  have l: "map d_language (c_languages (perform_comparison (snapshot_of results_A) (snapshot_of results_B))) =
     [''C/C++'', ''Go'', ''Python'']" by code_simp
  have f: "total_files (results_of (snapshot_of results_B)) - total_files (results_of (snapshot_of results_A)) = - 1"
    by code_simp
  from t have "c_files_diff (perform_comparison (snapshot_of results_A) (snapshot_of results_B)) =
     total_files (results_of (snapshot_of results_B)) - total_files (results_of (snapshot_of results_A))"
    by blast
  with f have fd: "c_files_diff (perform_comparison (snapshot_of results_A) (snapshot_of results_B)) = - 1"
    by simp
  from z l ba ab fd show ?thesis by blast
qed

end
